theory Spec2Isabelle
  imports Complex_Main "HOL-Library.AList" "HOL-Library.Sublist" "HOL-Library.Log_Nat"
begin

section \<open>The website crawling engine (backend/src/services/crawlerService.js)\<close>

text \<open>
  A shallow embedding of the class \<open>WebsiteCrawler\<close>. The instance fields are a record
  that every method takes and returns; a JavaScript \<open>Set\<close> is a list without
  repetitions in insertion order, a \<open>Map\<close> an association list in insertion order
  (\<open>AList.update\<close> overwrites in place and appends a new key, as \<open>Map.set\<close> does),
  a plain object used as a dictionary the list of its own properties in the order of
  their enumeration, and a number that the crawler calculates with a double.
  Everything the crawler gets from outside (the URL class of the platform, the
  robots.txt fetch, the browser, the clock) is a parameter: \<open>platform\<close> and \<open>world\<close>.
  A rejected promise or a thrown exception is a value: \<open>Inl message\<close>, or the first
  component \<open>Some message\<close> of a pair whose second component is the instance as the
  exception leaves it.
\<close>

subsection \<open>Strings\<close>

text \<open>\<open>s.replace(/\/$/, '')\<close>: one slash at the end of the input is removed.\<close>

definition strip_trailing_slash :: "string \<Rightarrow> string" where
  "strip_trailing_slash s = (if s \<noteq> [] \<and> last s = CHR ''/'' then butlast s else s)"

text \<open>
  \<open>s.replace(pat, rep)\<close> with a string pattern: the first occurrence of \<open>pat\<close> is
  replaced (the replacement used by the crawler is the empty string, which holds none of
  the \<open>$\<close> patterns).
\<close>

fun replace_first :: "string \<Rightarrow> string \<Rightarrow> string \<Rightarrow> string" where
  "replace_first pat rep [] = (if pat = [] then rep else [])"
| "replace_first pat rep (c # cs) =
     (if prefix pat (c # cs) then rep @ drop (length pat) (c # cs)
      else c # replace_first pat rep cs)"

text \<open>Truthiness of an attribute value: \<open>undefined\<close> and the empty string are falsy.\<close>

definition truthy :: "string option \<Rightarrow> bool" where
  "truthy a = (case a of None \<Rightarrow> False | Some s \<Rightarrow> s \<noteq> [])"

definition js_or :: "string option \<Rightarrow> string option \<Rightarrow> string option" where
  "js_or a b = (if truthy a then a else b)"

subsection \<open>Plain objects used as dictionaries\<close>

text \<open>
  \<open>metaTags\<close> and \<open>sitemap\<close> are plain objects (\<open>{}\<close>) written with \<open>obj[key] = v\<close>.
  An object is modelled by its own properties in the order \<open>Object.keys\<close> and
  \<open>JSON.stringify\<close> list them: first the keys that are array indices (the decimal
  numeral, without leading zero, of an integer from 0 to \<open>2^32 - 2\<close>) in ascending
  numeric order, then the other keys in the order of their first assignment; assigning
  to a key the object has keeps its place. The key \<open>__proto__\<close> is never an own
  property: the assignment calls the setter inherited from \<open>Object.prototype\<close>, which
  makes an object value the prototype and ignores a string.
\<close>

definition is_digit :: "char \<Rightarrow> bool" where
  "is_digit c = (c \<in> set ''0123456789'')"

definition index_val :: "string \<Rightarrow> int" where
  "index_val k = foldl (\<lambda>n c. 10 * n + (of_char c - 48)) 0 k"

definition is_array_index :: "string \<Rightarrow> bool" where
  "is_array_index k =
     (k \<noteq> [] \<and> list_all is_digit k \<and> (length k = 1 \<or> hd k \<noteq> CHR ''0'')
      \<and> index_val k \<le> 4294967294)"

fun index_insert :: "string \<Rightarrow> 'a \<Rightarrow> (string \<times> 'a) list \<Rightarrow> (string \<times> 'a) list" where
  "index_insert k v [] = [(k, v)]"
| "index_insert k v (kv # props) =
     (if is_array_index (fst kv) \<and> index_val (fst kv) < index_val k
      then kv # index_insert k v props
      else (k, v) # kv # props)"

text \<open>\<open>obj[k] = v\<close> for a key other than \<open>__proto__\<close>.\<close>

definition own_set :: "(string \<times> 'a) list \<Rightarrow> string \<Rightarrow> 'a \<Rightarrow> (string \<times> 'a) list" where
  "own_set props k v =
     (if k \<in> set (map fst props) then AList.update k v props
      else if is_array_index k then index_insert k v props
      else props @ [(k, v)])"

text \<open>An object whose values are objects: its own properties and its prototype, when set.\<close>

record 'a js_object =
  obj_own :: "(string \<times> 'a) list"
  obj_proto :: "'a option"

definition obj_set :: "'a js_object \<Rightarrow> string \<Rightarrow> 'a \<Rightarrow> 'a js_object" where
  "obj_set obj k v =
     (if k = ''__proto__'' then obj\<lparr>obj_proto := Some v\<rparr>
      else obj\<lparr>obj_own := own_set (obj_own obj) k v\<rparr>)"

subsection \<open>Numbers\<close>

text \<open>
  A JavaScript number is an IEEE 754 double. Load times are differences of two
  \<open>Date.now()\<close> values, integers that doubles hold exactly; lines 365-367 divide and
  add them. A finite double is modelled by the rational it denotes, and an operation by
  the exact operation followed by \<open>to_double\<close>, which rounds to the nearest number with
  a significand of 53 bits, a tie to the one whose significand is even. The exponent
  range is not modelled (no subnormal numbers, no \<open>Infinity\<close>): a load time is an
  integer below \<open>2^53\<close> and an array length is below \<open>2^32\<close>, so a quotient of the two
  and a sum of such quotients is 0 or a multiple of \<open>2^-84\<close> far below \<open>2^1024\<close> in
  absolute value, where \<open>to_double\<close> is the rounding of the machine.
\<close>

definition round_even :: "rat \<Rightarrow> int" where
  "round_even x =
     (let n = \<lfloor>x\<rfloor>; r = x - of_int n
      in if r < 1 / 2 then n else if 1 / 2 < r then n + 1 else if even n then n else n + 1)"

text \<open>The binary exponent of a number other than 0: \<open>2^e \<le> |x| < 2^(e+1)\<close>.\<close>

definition ilog2 :: "rat \<Rightarrow> int" where
  "ilog2 x =
     (let pq = quotient_of \<bar>x\<bar>; e = bitlen (fst pq) - bitlen (snd pq)
      in if power_int 2 e \<le> \<bar>x\<bar> then e else e - 1)"

definition to_double :: "rat \<Rightarrow> rat" where
  "to_double x =
     (if x = 0 then 0
      else (let ulp = power_int 2 (ilog2 x - 52) in of_int (round_even (x / ulp)) * ulp))"

subsection \<open>The platform's URL class\<close>

text \<open>
  \<open>new URL(s).href\<close>, \<open>new URL(rel, base).href\<close> and \<open>new URL(s).hostname\<close> belong to
  the platform, not to the repository: they are parameters. \<open>None\<close> is the
  \<open>TypeError\<close> the constructor throws.
\<close>

record platform =
  url_href :: "string \<Rightarrow> string option"
  url_resolve :: "string \<Rightarrow> string \<Rightarrow> string option"
  url_hostname :: "string \<Rightarrow> string option"

definition normalizeUrl :: "platform \<Rightarrow> string \<Rightarrow> string + string" where
  "normalizeUrl P url =
     (let url' = (if \<not> prefix ''http://'' url \<and> \<not> prefix ''https://'' url
                  then ''https://'' @ url else url)
      in case url_href P url' of
           None \<Rightarrow> Inl (''Invalid URL: '' @ url')
         | Some h \<Rightarrow> Inr (strip_trailing_slash h))"

definition getDomain :: "platform \<Rightarrow> string \<Rightarrow> string option" where
  "getDomain P url = url_hostname P url"

subsection \<open>Configuration and data model\<close>

record crawl_config =
  maxDepth :: int
  maxPages :: int
  timeout :: int
  respectRobotsTxt :: bool
  userAgent :: string
  concurrency :: int
  screenshotEnabled :: bool
  headless :: bool

definition DEFAULT_CONFIG :: crawl_config where
  "DEFAULT_CONFIG =
     \<lparr>maxDepth = 5, maxPages = 100, timeout = 30000, respectRobotsTxt = True,
      userAgent = ''HealthChecker-Bot/1.0 (https://healthchecker.app)'',
      concurrency = 3, screenshotEnabled = True, headless = True\<rparr>"

text \<open>An entry of \<open>crawlQueue\<close>: \<open>{ url, depth, parentUrl }\<close>; the seed's parent is \<open>null\<close>.\<close>

record frontier_entry =
  q_url :: string
  q_depth :: int
  q_parentUrl :: "string option"

record page_links =
  internal :: "string list"
  external :: "string list"

record page_image =
  img_url :: string
  img_alt :: string

record page_resources =
  css :: "string list"
  js :: "string list"
  images :: "page_image list"

record page_headings =
  h1 :: "string list"
  h2 :: "string list"
  h3 :: "string list"
  h4 :: "string list"
  h5 :: "string list"
  h6 :: "string list"

record page_headers =
  contentType :: "string option"
  server :: "string option"
  cacheControl :: "string option"
  xFrameOptions :: "string option"
  strictTransportSecurity :: "string option"

text \<open>The object \<open>extractPageData\<close> returns (lines 300-324).\<close>

record page_data =
  pd_url :: string
  pd_title :: string
  pd_depth :: int
  pd_parentUrl :: "string option"
  pd_statusCode :: int
  pd_loadTime :: int
  pd_crawledAt :: string
  pd_meta :: "(string \<times> string) list"
  pd_headings :: page_headings
  pd_links :: page_links
  pd_resources :: page_resources
  pd_headers :: page_headers
  pd_screenshot :: "string option"

text \<open>The object the \<open>catch\<close> block of \<open>crawlPage\<close> stores (lines 193-199).\<close>

record page_error =
  pe_url :: string
  pe_error :: string
  pe_depth :: int
  pe_parentUrl :: "string option"
  pe_crawledAt :: string

datatype page_result = PageData page_data | PageError page_error

fun result_depth :: "page_result \<Rightarrow> int" where
  "result_depth (PageData d) = pd_depth d"
| "result_depth (PageError e) = pe_depth e"

fun is_page_data :: "page_result \<Rightarrow> bool" where
  "is_page_data (PageData d) = True"
| "is_page_data (PageError e) = False"

text \<open>
  Calls on the browser and dequeues, in the order the crawl makes them. The list is
  ghost state: no method reads it. \<open>Navigate\<close> stands for lines 158-169
  (\<open>setUserAgent\<close>, \<open>setViewport\<close>, \<open>goto\<close>).
\<close>

datatype event =
    RobotsFetch
  | BrowserLaunch
  | BrowserClose
  | Dequeue frontier_entry
  | NewPage string
  | Navigate string
  | PageClose string

text \<open>
  The instance. \<open>robotsParser\<close> is \<open>null\<close> or the parser's \<open>isAllowed(url, userAgent)\<close>,
  whose value is \<open>true\<close>, \<open>false\<close> or \<open>undefined\<close> (\<open>None\<close>); \<open>browser\<close> is \<open>null\<close>
  (\<open>False\<close>) or the launched handle. \<open>tick\<close> counts the calls of \<open>crawlPage\<close> and
  \<open>trace\<close> lists the events; both are ghost fields.
\<close>

record crawler =
  startUrl :: string
  config :: crawl_config
  visitedUrls :: "string list"
  crawlQueue :: "frontier_entry list"
  results :: "(string \<times> page_result) list"
  robotsParser :: "(string \<Rightarrow> string \<Rightarrow> bool option) option"
  browser :: bool
  crawlId :: string
  startTime :: "int option"
  tick :: nat
  trace :: "event list"

text \<open>\<open>Set.add\<close>: a member is not added again.\<close>

definition set_add :: "string \<Rightarrow> string list \<Rightarrow> string list" where
  "set_add x xs = (if x \<in> set xs then xs else xs @ [x])"

subsection \<open>The outside world\<close>

text \<open>
  What cheerio's selectors find in the HTML of a page: the attributes of the \<open>meta\<close>
  elements, the \<open>href\<close> of every \<open>a[href]\<close>, of every \<open>link[rel="stylesheet"]\<close>, the
  \<open>src\<close> of every \<open>script[src]\<close>, \<open>src\<close> and \<open>alt\<close> of every \<open>img[src]\<close>, and the trimmed
  text of the headings by level.
\<close>

record meta_elem =
  m_name :: "string option"
  m_property :: "string option"
  m_content :: "string option"

record dom =
  dom_meta :: "meta_elem list"
  dom_anchors :: "string list"
  dom_stylesheets :: "string option list"
  dom_scripts :: "string option list"
  dom_imgs :: "(string option \<times> string option) list"
  dom_headings :: page_headings

text \<open>The navigation response: \<open>response.headers()\<close> and \<open>response.status()\<close>.\<close>

record response =
  resp_headers :: "string \<Rightarrow> string option"
  resp_status :: int

text \<open>
  The page handle after navigation: \<open>page.content()\<close> (parsed by cheerio),
  \<open>page.title()\<close> and \<open>page.screenshot(...)\<close>, each resolved (\<open>Inr\<close>) or rejected
  (\<open>Inl message\<close>).
\<close>

record page_handle =
  page_content :: "string + dom"
  page_title :: "string + string"
  page_screenshot :: "string + string"

text \<open>
  One call of \<open>crawlPage\<close> as the browser answers it: whether \<open>browser.newPage()\<close>
  rejects; whether lines 158-169 reject (\<open>Inl message\<close>) or \<open>goto\<close> resolves to a
  response, which puppeteer allows to be \<open>null\<close>, after \<open>loadTime\<close> milliseconds; the
  page handle; \<open>new Date().toISOString()\<close>; whether \<open>page.close()\<close> rejects.
\<close>

record page_visit =
  newPage_error :: "string option"
  goto_result :: "string + (response option \<times> int)"
  page :: page_handle
  visit_iso :: string
  close_error :: "string option"

text \<open>
  The world of one crawl: the value of \<open>generateCrawlId()\<close>, the robots.txt fetch
  (\<open>None\<close> when \<open>axios.get\<close> or the parser throws), whether \<open>puppeteer.launch\<close>
  rejects, the answer to the \<open>n\<close>-th call of \<open>crawlPage\<close> for a URL, whether the
  \<open>n\<close>-th call of \<open>browser.close()\<close> rejects (counted from 0), and the clock at the
  start and at the report.
\<close>

record world =
  fresh_id :: string
  robots_fetch :: "(string \<Rightarrow> string \<Rightarrow> bool option) option"
  launch_error :: "string option"
  visit :: "nat \<Rightarrow> string \<Rightarrow> page_visit"
  browser_close_error :: "nat \<Rightarrow> string option"
  start_now :: int
  report_now :: int
  report_iso :: string

subsection \<open>Scoping and robots.txt\<close>

definition isInternalUrl :: "platform \<Rightarrow> crawler \<Rightarrow> string \<Rightarrow> bool" where
  "isInternalUrl P s url = (getDomain P (startUrl s) = getDomain P url)"

definition loadRobotsTxt :: "world \<Rightarrow> crawler \<Rightarrow> crawler" where
  "loadRobotsTxt W s = s\<lparr>robotsParser := robots_fetch W, trace := trace s @ [RobotsFetch]\<rparr>"

text \<open>
  The value of \<open>isAllowedByRobots\<close>: \<open>true\<close> when the check is switched off or no
  parser is loaded, otherwise whatever the parser says, \<open>undefined\<close> (\<open>None\<close>) included.
\<close>

definition isAllowedByRobots :: "crawler \<Rightarrow> string \<Rightarrow> bool option" where
  "isAllowedByRobots s url =
     (if \<not> respectRobotsTxt (config s) then Some True
      else case robotsParser s of
             None \<Rightarrow> Some True
           | Some isAllowed \<Rightarrow> isAllowed url (userAgent (config s)))"

subsection \<open>Page data extraction\<close>

definition add_meta :: "(string \<times> string) list \<Rightarrow> meta_elem \<Rightarrow> (string \<times> string) list" where
  "add_meta metaTags elem =
     (case (js_or (m_name elem) (m_property elem), m_content elem) of
        (Some name, Some content) \<Rightarrow>
          if name \<noteq> [] \<and> content \<noteq> []
          then (if name = ''__proto__'' then metaTags else own_set metaTags name content)
          else metaTags
      | _ \<Rightarrow> metaTags)"

text \<open>
  One anchor (lines 221-236): a reference the URL class rejects is skipped, the others
  are classified and added once per page.
\<close>

definition add_link :: "platform \<Rightarrow> crawler \<Rightarrow> string \<Rightarrow> page_links \<Rightarrow> string \<Rightarrow> page_links" where
  "add_link P s url links href =
     (case url_resolve P href url of
        None \<Rightarrow> links
      | Some h \<Rightarrow>
          (let absoluteUrl = strip_trailing_slash h in
           if isInternalUrl P s absoluteUrl
           then (if absoluteUrl \<in> set (internal links) then links
                 else links\<lparr>internal := internal links @ [absoluteUrl]\<rparr>)
           else (if absoluteUrl \<in> set (external links) then links
                 else links\<lparr>external := external links @ [absoluteUrl]\<rparr>)))"

definition add_file :: "platform \<Rightarrow> string \<Rightarrow> string list \<Rightarrow> string option \<Rightarrow> string list" where
  "add_file P url files ref =
     (case ref of
        None \<Rightarrow> files
      | Some r \<Rightarrow>
          if r = [] then files
          else (case url_resolve P r url of None \<Rightarrow> files | Some h \<Rightarrow> files @ [h]))"

definition add_image ::
  "platform \<Rightarrow> string \<Rightarrow> page_image list \<Rightarrow> string option \<times> string option \<Rightarrow> page_image list" where
  "add_image P url imgs elem =
     (case fst elem of
        None \<Rightarrow> imgs
      | Some src \<Rightarrow>
          if src = [] then imgs
          else (case url_resolve P src url of
                  None \<Rightarrow> imgs
                | Some h \<Rightarrow>
                    imgs @ [\<lparr>img_url = h,
                             img_alt = (case snd elem of None \<Rightarrow> [] | Some a \<Rightarrow> a)\<rparr>]))"

text \<open>Lines 286-298 and 323: the screenshot, and the reference kept of it.\<close>

definition take_screenshot :: "crawler \<Rightarrow> page_handle \<Rightarrow> string option" where
  "take_screenshot s pg =
     (if screenshotEnabled (config s)
      then (case page_screenshot pg of Inl e \<Rightarrow> None | Inr b \<Rightarrow> Some b)
      else None)"

definition screenshot_ref :: "string option \<Rightarrow> string option" where
  "screenshot_ref shot =
     (case shot of
        None \<Rightarrow> None
      | Some b \<Rightarrow> if b = [] then None
                  else Some (''data:image/jpeg;base64,'' @ take 100 b @ ''...''))"

text \<open>
  \<open>extractPageData\<close>. Three calls are outside every \<open>try\<close>: \<open>page.content()\<close>,
  \<open>response.headers()\<close> (a \<open>TypeError\<close> when the response is \<open>null\<close>) and
  \<open>page.title()\<close>; when one throws, the method throws.
\<close>

definition extractPageData ::
  "platform \<Rightarrow> crawler \<Rightarrow> page_handle \<Rightarrow> string \<Rightarrow> response option \<Rightarrow> int \<Rightarrow> int \<Rightarrow>
     string option \<Rightarrow> string \<Rightarrow> string + page_data" where
  "extractPageData P s pg url resp loadTime depth parentUrl now =
     (case page_content pg of
        Inl e \<Rightarrow> Inl e
      | Inr d \<Rightarrow>
          (let metaTags = foldl add_meta [] (dom_meta d);
               links = foldl (add_link P s url) \<lparr>internal = [], external = []\<rparr> (dom_anchors d);
               cssFiles = foldl (add_file P url) [] (dom_stylesheets d);
               jsFiles = foldl (add_file P url) [] (dom_scripts d);
               imgs = foldl (add_image P url) [] (dom_imgs d);
               headings = dom_headings d
           in case resp of
                None \<Rightarrow> Inl ''Cannot read properties of null (reading 'headers')''
              | Some r \<Rightarrow>
                  (let headers = resp_headers r;
                       screenshot = take_screenshot s pg
                   in case page_title pg of
                        Inl e \<Rightarrow> Inl e
                      | Inr t \<Rightarrow>
                          Inr \<lparr>pd_url = url, pd_title = t, pd_depth = depth,
                               pd_parentUrl = parentUrl, pd_statusCode = resp_status r,
                               pd_loadTime = loadTime, pd_crawledAt = now,
                               pd_meta = metaTags, pd_headings = headings, pd_links = links,
                               pd_resources =
                                 \<lparr>css = cssFiles, js = jsFiles, images = take 50 imgs\<rparr>,
                               pd_headers =
                                 \<lparr>contentType = headers ''content-type'',
                                  server = headers ''server'',
                                  cacheControl = headers ''cache-control'',
                                  xFrameOptions = headers ''x-frame-options'',
                                  strictTransportSecurity =
                                    headers ''strict-transport-security''\<rparr>,
                               pd_screenshot = screenshot_ref screenshot\<rparr>)))"

subsection \<open>Crawling one page\<close>

text \<open>Lines 193-199: the \<open>catch\<close> block.\<close>

definition record_error :: "string \<Rightarrow> int \<Rightarrow> string option \<Rightarrow> string \<Rightarrow> string \<Rightarrow> crawler \<Rightarrow> crawler" where
  "record_error url depth parentUrl now msg s =
     s\<lparr>results :=
         AList.update url
           (PageError \<lparr>pe_url = url, pe_error = msg, pe_depth = depth,
                       pe_parentUrl = parentUrl, pe_crawledAt = now\<rparr>)
           (results s)\<rparr>"

text \<open>Lines 183-189: the internal links of a page are queued one level deeper.\<close>

definition queue_link :: "string \<Rightarrow> int \<Rightarrow> crawler \<Rightarrow> string \<Rightarrow> crawler" where
  "queue_link url depth s link =
     (if link \<notin> set (visitedUrls s) \<and> int (length (visitedUrls s)) < maxPages (config s)
      then s\<lparr>crawlQueue :=
               crawlQueue s @ [\<lparr>q_url = link, q_depth = depth + 1, q_parentUrl = Some url\<rparr>]\<rparr>
      else s)"

definition queue_links :: "string \<Rightarrow> int \<Rightarrow> page_data \<Rightarrow> crawler \<Rightarrow> crawler" where
  "queue_links url depth pageData s =
     (if depth < maxDepth (config s)
      then foldl (queue_link url depth) s (internal (pd_links pageData))
      else s)"

text \<open>
  \<open>crawlPage\<close>: the thrown error, if any, and the instance afterwards.
  \<open>browser.newPage()\<close> is outside the \<open>try\<close>, \<open>page.close()\<close> is in \<open>finally\<close>: both
  throw out of the method. The URL is added to \<open>visitedUrls\<close> after \<open>goto\<close> has
  resolved (line 174), not in the \<open>catch\<close> block.
\<close>

definition crawlPage ::
  "platform \<Rightarrow> page_visit \<Rightarrow> string \<Rightarrow> int \<Rightarrow> string option \<Rightarrow> crawler \<Rightarrow> string option \<times> crawler" where
  "crawlPage P v url depth parentUrl s0 =
     (let s = s0\<lparr>tick := Suc (tick s0)\<rparr> in
      case newPage_error v of
        Some e \<Rightarrow> (Some e, s)
      | None \<Rightarrow>
          (let s1 = s\<lparr>trace := trace s @ [NewPage url, Navigate url]\<rparr>;
               s2 = (case goto_result v of
                       Inl msg \<Rightarrow> record_error url depth parentUrl (visit_iso v) msg s1
                     | Inr (resp, loadTime) \<Rightarrow>
                         (let s3 = s1\<lparr>visitedUrls := set_add url (visitedUrls s1)\<rparr> in
                          case extractPageData P s3 (page v) url resp loadTime depth parentUrl
                                 (visit_iso v) of
                            Inl msg \<Rightarrow> record_error url depth parentUrl (visit_iso v) msg s3
                          | Inr pageData \<Rightarrow>
                              queue_links url depth pageData
                                (s3\<lparr>results :=
                                      AList.update url (PageData pageData) (results s3)\<rparr>)));
               s4 = s2\<lparr>trace := trace s2 @ [PageClose url]\<rparr>
           in (close_error v, s4)))"

subsection \<open>The crawl loop\<close>

definition loop_guard :: "crawler \<Rightarrow> bool" where
  "loop_guard s =
     (crawlQueue s \<noteq> [] \<and> int (length (visitedUrls s)) < maxPages (config s))"

text \<open>
  One iteration (lines 114-133), entered with a queue that is not empty: the head is
  shifted off, then skipped (\<open>continue\<close>) or crawled.
\<close>

definition loop_body :: "platform \<Rightarrow> world \<Rightarrow> crawler \<Rightarrow> string option \<times> crawler" where
  "loop_body P W s =
     (let e = hd (crawlQueue s);
          s1 = s\<lparr>crawlQueue := tl (crawlQueue s), trace := trace s @ [Dequeue e]\<rparr>
      in if q_url e \<in> set (visitedUrls s1) then (None, s1)
         else if q_depth e > maxDepth (config s1) then (None, s1)
         else if isAllowedByRobots s1 (q_url e) \<noteq> Some True then (None, s1)
         else crawlPage P (visit W (tick s1) (q_url e)) (q_url e) (q_depth e) (q_parentUrl e) s1)"

subsection \<open>Frame properties of the page step\<close>

lemma queue_link_frame:
  "visitedUrls (queue_link url depth s l) = visitedUrls s"
  "config (queue_link url depth s l) = config s"
  "results (queue_link url depth s l) = results s"
  "trace (queue_link url depth s l) = trace s"
  "tick (queue_link url depth s l) = tick s"
  "robotsParser (queue_link url depth s l) = robotsParser s"
  "startUrl (queue_link url depth s l) = startUrl s"
  by (simp_all add: queue_link_def)

lemma foldl_queue_link_frame:
  "visitedUrls (foldl (queue_link url depth) s ls) = visitedUrls s"
  "config (foldl (queue_link url depth) s ls) = config s"
  "results (foldl (queue_link url depth) s ls) = results s"
  "trace (foldl (queue_link url depth) s ls) = trace s"
  "tick (foldl (queue_link url depth) s ls) = tick s"
  "robotsParser (foldl (queue_link url depth) s ls) = robotsParser s"
  "startUrl (foldl (queue_link url depth) s ls) = startUrl s"
  by (induction ls arbitrary: s; simp add: queue_link_frame)+

lemma queue_links_frame:
  "visitedUrls (queue_links url depth pd s) = visitedUrls s"
  "config (queue_links url depth pd s) = config s"
  "results (queue_links url depth pd s) = results s"
  "trace (queue_links url depth pd s) = trace s"
  "tick (queue_links url depth pd s) = tick s"
  "robotsParser (queue_links url depth pd s) = robotsParser s"
  "startUrl (queue_links url depth pd s) = startUrl s"
  by (simp_all add: queue_links_def foldl_queue_link_frame)

lemma record_error_frame:
  "visitedUrls (record_error url depth par now msg s) = visitedUrls s"
  "config (record_error url depth par now msg s) = config s"
  "crawlQueue (record_error url depth par now msg s) = crawlQueue s"
  "trace (record_error url depth par now msg s) = trace s"
  "tick (record_error url depth par now msg s) = tick s"
  "robotsParser (record_error url depth par now msg s) = robotsParser s"
  "startUrl (record_error url depth par now msg s) = startUrl s"
  by (simp_all add: record_error_def)

text \<open>The links a page queues: those not visited, while the budget lasts.\<close>

definition new_entries :: "string \<Rightarrow> int \<Rightarrow> crawler \<Rightarrow> string list \<Rightarrow> frontier_entry list" where
  "new_entries url depth s ls =
     (if int (length (visitedUrls s)) < maxPages (config s)
      then map (\<lambda>l. \<lparr>q_url = l, q_depth = depth + 1, q_parentUrl = Some url\<rparr>)
             (filter (\<lambda>l. l \<notin> set (visitedUrls s)) ls)
      else [])"

lemma foldl_queue_link_queue:
  "crawlQueue (foldl (queue_link url depth) s ls) = crawlQueue s @ new_entries url depth s ls"
proof (induction ls arbitrary: s)
  case Nil
  show ?case by (simp add: new_entries_def)
next
  case (Cons l ls)
  show ?case
    by (simp add: Cons.IH) (simp add: queue_link_def new_entries_def)
qed

lemma config_crawlPage: "config (snd (crawlPage P v url depth par s)) = config s"
  by (simp add: crawlPage_def Let_def queue_links_frame record_error_frame
      split: option.split sum.split prod.split)

lemma config_loop_body: "config (snd (loop_body P W s)) = config s"
  by (simp add: loop_body_def Let_def config_crawlPage)

lemma crawlPage_progress:
  assumes "url \<notin> set (visitedUrls s)"
  shows "(visitedUrls (snd (crawlPage P v url depth par s)) = visitedUrls s
            \<and> crawlQueue (snd (crawlPage P v url depth par s)) = crawlQueue s)
         \<or> visitedUrls (snd (crawlPage P v url depth par s)) = visitedUrls s @ [url]"
  using assms
  by (simp add: crawlPage_def Let_def queue_links_frame record_error_frame set_add_def
      split: option.split sum.split prod.split)

lemma loop_body_progress:
  "(visitedUrls (snd (loop_body P W s)) = visitedUrls s
      \<and> crawlQueue (snd (loop_body P W s)) = tl (crawlQueue s))
   \<or> (\<exists>u. u \<notin> set (visitedUrls s) \<and> visitedUrls (snd (loop_body P W s)) = visitedUrls s @ [u])"
proof -
  let ?e = "hd (crawlQueue s)"
  let ?s1 = "s\<lparr>crawlQueue := tl (crawlQueue s), trace := trace s @ [Dequeue ?e]\<rparr>"
  show ?thesis
  proof (cases "q_url ?e \<in> set (visitedUrls s) \<or> q_depth ?e > maxDepth (config s)
                  \<or> isAllowedByRobots ?s1 (q_url ?e) \<noteq> Some True")
    case True
    then show ?thesis by (auto simp add: loop_body_def Let_def)
  next
    case False
    then have body: "loop_body P W s =
        crawlPage P (visit W (tick s) (q_url ?e)) (q_url ?e) (q_depth ?e) (q_parentUrl ?e) ?s1"
      by (simp add: loop_body_def Let_def)
    from False have "q_url ?e \<notin> set (visitedUrls ?s1)" by simp
    from crawlPage_progress [OF this, of P "visit W (tick s) (q_url ?e)" "q_depth ?e" "q_parentUrl ?e"]
    show ?thesis
      unfolding body using False by auto
  qed
qed

definition pages_left :: "crawler \<Rightarrow> nat" where
  "pages_left s = nat (maxPages (config s) - int (length (visitedUrls s)))"

function crawl_loop :: "platform \<Rightarrow> world \<Rightarrow> crawler \<Rightarrow> string option \<times> crawler" where
  "crawl_loop P W s =
     (if loop_guard s
      then (let r = loop_body P W s in if fst r = None then crawl_loop P W (snd r) else r)
      else (None, s))"
  by pat_completeness auto
termination
proof (relation "measures [\<lambda>(P, W, s). pages_left s, \<lambda>(P, W, s). length (crawlQueue s)]")
  show "wf (measures [\<lambda>(P, W, s). pages_left s, \<lambda>(P, W, s). length (crawlQueue s)])" by simp
next
  fix P W s r
  assume g: "loop_guard s" and r: "r = loop_body P W s" and "fst r = None"
  have c: "config (snd (loop_body P W s)) = config s" by (rule config_loop_body)
  from g have ne: "crawlQueue s \<noteq> []" and lt: "int (length (visitedUrls s)) < maxPages (config s)"
    by (simp_all add: loop_guard_def)
  from loop_body_progress [of P W s]
  show "((P, W, snd r), (P, W, s)) \<in> measures [\<lambda>(P, W, s). pages_left s, \<lambda>(P, W, s). length (crawlQueue s)]"
  proof
    assume "visitedUrls (snd (loop_body P W s)) = visitedUrls s
      \<and> crawlQueue (snd (loop_body P W s)) = tl (crawlQueue s)"
    with ne c show ?thesis by (simp add: pages_left_def r)
  next
    assume "\<exists>u. u \<notin> set (visitedUrls s) \<and> visitedUrls (snd (loop_body P W s)) = visitedUrls s @ [u]"
    then obtain u where "visitedUrls (snd (loop_body P W s)) = visitedUrls s @ [u]" by blast
    with lt c show ?thesis by (simp add: pages_left_def r)
  qed
qed

declare crawl_loop.simps [simp del]

subsection \<open>The report\<close>

record sitemap_resources =
  cssCount :: nat
  jsCount :: nat
  imageCount :: nat

text \<open>
  A sitemap entry (lines 332-345). \<open>None\<close> is \<open>undefined\<close> or \<open>null\<close>: the title, load
  time and status code of an error result are \<open>undefined\<close>, its \<open>resources\<close> is \<open>{}\<close>,
  and \<open>error\<close> is \<open>pageData.error || null\<close>.
\<close>

record sitemap_entry =
  sm_url :: string
  sm_title :: "string option"
  sm_depth :: int
  sm_links :: "string list"
  sm_resources :: "sitemap_resources option"
  sm_loadTime :: "int option"
  sm_statusCode :: "int option"
  sm_error :: "string option"

fun sitemap_entry_of :: "page_result \<Rightarrow> sitemap_entry" where
  "sitemap_entry_of (PageData d) =
     \<lparr>sm_url = pd_url d, sm_title = Some (pd_title d), sm_depth = pd_depth d,
      sm_links = internal (pd_links d),
      sm_resources =
        Some \<lparr>cssCount = length (css (pd_resources d)), jsCount = length (js (pd_resources d)),
              imageCount = length (images (pd_resources d))\<rparr>,
      sm_loadTime = Some (pd_loadTime d), sm_statusCode = Some (pd_statusCode d),
      sm_error = None\<rparr>"
| "sitemap_entry_of (PageError e) =
     \<lparr>sm_url = pe_url e, sm_title = None, sm_depth = pe_depth e, sm_links = [],
      sm_resources = None, sm_loadTime = None, sm_statusCode = None,
      sm_error = (if pe_error e = [] then None else Some (pe_error e))\<rparr>"

text \<open>Line 331: \<open>url.replace(this.startUrl, '') || '/'\<close>.\<close>

definition path_key :: "string \<Rightarrow> string \<Rightarrow> string" where
  "path_key start url = (let path = replace_first start [] url in if path = [] then ''/'' else path)"

text \<open>Lines 328-346: \<open>sitemap\<close> starts as \<open>{}\<close> and is assigned once per result.\<close>

definition add_sitemap ::
  "string \<Rightarrow> sitemap_entry js_object \<Rightarrow> string \<times> page_result \<Rightarrow> sitemap_entry js_object" where
  "add_sitemap start sitemap kv =
     obj_set sitemap (path_key start (fst kv)) (sitemap_entry_of (snd kv))"

definition build_sitemap :: "string \<Rightarrow> (string \<times> page_result) list \<Rightarrow> sitemap_entry js_object" where
  "build_sitemap start rs = foldl (add_sitemap start) \<lparr>obj_own = [], obj_proto = None\<rparr> rs"

fun link_count :: "page_result \<Rightarrow> nat" where
  "link_count (PageData d) = length (internal (pd_links d)) + length (external (pd_links d))"
| "link_count (PageError e) = 0"

fun image_count :: "page_result \<Rightarrow> nat" where
  "image_count (PageData d) = length (images (pd_resources d))"
| "image_count (PageError e) = 0"

text \<open>
  \<open>page.loadTime\<close> as the filter of line 366 reads it: \<open>undefined\<close> (an error result)
  and \<open>0\<close> are falsy.
\<close>

fun has_loadTime :: "page_result \<Rightarrow> bool" where
  "has_loadTime (PageData d) = (pd_loadTime d \<noteq> 0)"
| "has_loadTime (PageError e) = False"

fun loadTime_of :: "page_result \<Rightarrow> int" where
  "loadTime_of (PageData d) = pd_loadTime d"
| "loadTime_of (PageError e) = 0"

text \<open>
  Lines 365-367: \<open>filter(page => page.loadTime)\<close>, then
  \<open>reduce((sum, page, i, arr) => sum + page.loadTime / arr.length, 0)\<close>, a division and
  an addition of doubles for every page kept.
\<close>

definition avg_loadTime :: "page_result list \<Rightarrow> rat" where
  "avg_loadTime pages =
     (let arr = filter has_loadTime pages
      in foldl (\<lambda>sum page.
                  to_double (sum + to_double (of_int (loadTime_of page) / of_nat (length arr))))
           0 arr)"

record report_config =
  rc_maxDepth :: int
  rc_maxPages :: int
  rc_respectRobotsTxt :: bool

record report_statistics =
  totalLinks :: nat
  totalImages :: nat
  avgLoadTime :: rat

record report =
  rp_crawlId :: string
  website :: string
  totalPages :: nat
  rp_crawledAt :: string
  duration :: int
  rp_config :: report_config
  sitemap :: "sitemap_entry js_object"
  statistics :: report_statistics

definition generateReport :: "world \<Rightarrow> crawler \<Rightarrow> report" where
  "generateReport W s =
     \<lparr>rp_crawlId = crawlId s,
      website = startUrl s,
      totalPages = length (visitedUrls s),
      rp_crawledAt = report_iso W,
      duration = report_now W - (case startTime s of None \<Rightarrow> 0 | Some t \<Rightarrow> t),
      rp_config =
        \<lparr>rc_maxDepth = maxDepth (config s), rc_maxPages = maxPages (config s),
         rc_respectRobotsTxt = respectRobotsTxt (config s)\<rparr>,
      sitemap = build_sitemap (startUrl s) (results s),
      statistics =
        \<lparr>totalLinks = foldl (\<lambda>sum page. sum + link_count page) 0 (map snd (results s)),
         totalImages = foldl (\<lambda>sum page. sum + image_count page) 0 (map snd (results s)),
         avgLoadTime = avg_loadTime (map snd (results s))\<rparr>\<rparr>"

subsection \<open>The crawl\<close>

text \<open>
  The constructor, after the options have been merged over \<open>DEFAULT_CONFIG\<close>: it
  throws on a seed the URL class rejects.
\<close>

definition init_crawler :: "string \<Rightarrow> string \<Rightarrow> crawl_config \<Rightarrow> crawler" where
  "init_crawler ident start cfg =
     \<lparr>startUrl = start, config = cfg, visitedUrls = [], crawlQueue = [], results = [],
      robotsParser = None, browser = False, crawlId = ident, startTime = None,
      tick = 0, trace = []\<rparr>"

definition WebsiteCrawler :: "platform \<Rightarrow> world \<Rightarrow> string \<Rightarrow> crawl_config \<Rightarrow> string + crawler" where
  "WebsiteCrawler P W url cfg =
     (case normalizeUrl P url of
        Inl e \<Rightarrow> Inl e
      | Inr start \<Rightarrow> Inr (init_crawler (fresh_id W) start cfg))"

text \<open>A call of \<open>browser.close()\<close>, as an event; the world says whether it rejects.\<close>

definition browser_close :: "crawler \<Rightarrow> crawler" where
  "browser_close s = s\<lparr>trace := trace s @ [BrowserClose]\<rparr>"

text \<open>
  The \<open>catch\<close> block (lines 143-148), entered with the error \<open>e\<close> after \<open>n\<close> calls of
  \<open>browser.close()\<close>: when \<open>this.browser\<close> is set it closes the browser, and a rejection
  of that call is what the caller gets; otherwise \<open>e\<close> is thrown again.
\<close>

definition catch_close :: "world \<Rightarrow> nat \<Rightarrow> string \<Rightarrow> crawler \<Rightarrow> (string + report) \<times> crawler" where
  "catch_close W n e s =
     (if browser s
      then (case browser_close_error W n of
              Some e' \<Rightarrow> (Inl e', browser_close s)
            | None \<Rightarrow> (Inl e, browser_close s))
      else (Inl e, s))"

text \<open>Lines 95-110: the instance when the loop is entered.\<close>

definition seeded :: "world \<Rightarrow> crawler \<Rightarrow> crawler" where
  "seeded W c =
     (let s1 = loadRobotsTxt W (c\<lparr>startTime := Some (start_now W)\<rparr>);
          s2 = s1\<lparr>browser := True, trace := trace s1 @ [BrowserLaunch]\<rparr>
      in s2\<lparr>crawlQueue :=
              crawlQueue s2 @ [\<lparr>q_url = startUrl s2, q_depth = 0, q_parentUrl = None\<rparr>]\<rparr>)"

text \<open>
  \<open>crawl\<close>: the report or the error thrown to the caller, and the instance at the exit.
  The \<open>browser.close()\<close> of line 136 is inside the \<open>try\<close>, and \<open>this.browser\<close> is not
  reset after it: when it rejects, the \<open>catch\<close> block runs with the browser still set.
\<close>

definition crawl :: "platform \<Rightarrow> world \<Rightarrow> crawler \<Rightarrow> (string + report) \<times> crawler" where
  "crawl P W c =
     (case launch_error W of
        Some e \<Rightarrow> catch_close W 0 e (loadRobotsTxt W (c\<lparr>startTime := Some (start_now W)\<rparr>))
      | None \<Rightarrow>
          (let r = crawl_loop P W (seeded W c) in
           case fst r of
             Some e \<Rightarrow> catch_close W 0 e (snd r)
           | None \<Rightarrow>
               (let s = browser_close (snd r) in
                case browser_close_error W 0 of
                  Some e \<Rightarrow> catch_close W 1 e s
                | None \<Rightarrow> (Inr (generateReport W s), s))))"

text \<open>The exported function: the result and the events of the job.\<close>

definition crawlWebsite ::
  "platform \<Rightarrow> world \<Rightarrow> string \<Rightarrow> crawl_config \<Rightarrow> (string + report) \<times> event list" where
  "crawlWebsite P W url cfg =
     (case WebsiteCrawler P W url cfg of
        Inl e \<Rightarrow> (Inl e, [])
      | Inr c \<Rightarrow> (let r = crawl P W c in (fst r, trace (snd r))))"

text \<open>The states of the instance at the head of the loop, one per evaluation of line 113.\<close>

inductive reachable :: "platform \<Rightarrow> world \<Rightarrow> crawler \<Rightarrow> crawler \<Rightarrow> bool" for P W c where
  entry: "launch_error W = None \<Longrightarrow> reachable P W c (seeded W c)"
| iterate: "reachable P W c s \<Longrightarrow> loop_guard s \<Longrightarrow> fst (loop_body P W s) = None \<Longrightarrow>
            reachable P W c (snd (loop_body P W s))"

section \<open>Laws of the URL class and idempotence of normalization\<close>

text \<open>
  \<open>normalize(normalize(u))\<close>: the second call is made on the result of the first.
\<close>

definition normalize_twice :: "platform \<Rightarrow> string \<Rightarrow> string + string" where
  "normalize_twice P u = (case normalizeUrl P u of Inl e \<Rightarrow> Inl e | Inr v \<Rightarrow> normalizeUrl P v)"

text \<open>
  Three properties of the platform's serializer that the idempotence of \<open>normalizeUrl\<close>
  rests on: \<open>href\<close> keeps an \<open>http://\<close> or \<open>https://\<close> scheme and has a host after it;
  \<open>href\<close> of a serialized URL is that URL; and a serialized URL without its final slash
  serializes to itself, with or without that slash.
\<close>

definition serializer_laws :: "platform \<Rightarrow> bool" where
  "serializer_laws P =
     ((\<forall>s h. url_href P s = Some h \<longrightarrow>
          (prefix ''http://'' s \<longrightarrow> prefix ''http://'' h \<and> 7 < length h) \<and>
          (prefix ''https://'' s \<longrightarrow> prefix ''https://'' h \<and> 8 < length h)) \<and>
      (\<forall>s h. url_href P s = Some h \<longrightarrow> url_href P h = Some h) \<and>
      (\<forall>s h. url_href P s = Some (h @ ''/'') \<longrightarrow> \<not> suffix ''/'' h \<longrightarrow>
          url_href P h = Some h \<or> url_href P h = Some (h @ ''/'')))"

section \<open>Projections of the trace and invariants\<close>

text \<open>
  The entries dequeued so far, the launches and closes of the browser, and the number
  of results that hold page data.
\<close>

definition dequeued :: "event list \<Rightarrow> frontier_entry list" where
  "dequeued tr = concat (map (\<lambda>ev. case ev of Dequeue e \<Rightarrow> [e] | _ \<Rightarrow> []) tr)"

definition browser_events :: "event list \<Rightarrow> event list" where
  "browser_events tr = filter (\<lambda>ev. ev = BrowserLaunch \<or> ev = BrowserClose) tr"

definition page_loadTimes :: "(string \<times> page_result) list \<Rightarrow> int list" where
  "page_loadTimes rs = [pd_loadTime d. (u, PageData d) \<leftarrow> rs]"

definition data_count :: "(string \<times> page_result) list \<Rightarrow> nat" where
  "data_count rs = length (filter (\<lambda>kv. is_page_data (snd kv)) rs)"

text \<open>Every stored result is at most \<open>maxDepth\<close> deep.\<close>

definition depth_inv :: "crawler \<Rightarrow> bool" where
  "depth_inv s = list_all (\<lambda>kv. result_depth (snd kv) \<le> maxDepth (config s)) (results s)"

text \<open>No queued entry is deeper than \<open>maxDepth\<close> (the seed, at depth 0, is always queued).\<close>

definition queue_inv :: "crawler \<Rightarrow> bool" where
  "queue_inv s = list_all (\<lambda>e. q_depth e \<le> max 0 (maxDepth (config s))) (crawlQueue s)"

text \<open>
  The page budget: \<open>visitedUrls\<close> holds at most \<open>maxPages\<close> URLs, and no more results
  hold page data than URLs are visited.
\<close>

definition budget_inv :: "crawler \<Rightarrow> bool" where
  "budget_inv s =
     (int (length (visitedUrls s)) \<le> max 0 (maxPages (config s))
      \<and> data_count (results s) \<le> length (visitedUrls s))"

text \<open>
  Breadth-first order: the dequeued entries followed by the queue are sorted by depth,
  and no queued entry is more than one level below the head of the queue.
\<close>

definition bfs_inv :: "crawler \<Rightarrow> bool" where
  "bfs_inv s =
     (sorted (map q_depth (dequeued (trace s) @ crawlQueue s))
      \<and> list_all (\<lambda>e. q_depth e \<le> q_depth (hd (crawlQueue s)) + 1) (crawlQueue s))"

text \<open>
  Every URL with a stored result passed \<open>isAllowedByRobots\<close>.
\<close>

definition robots_inv :: "crawler \<Rightarrow> bool" where
  "robots_inv s = list_all (\<lambda>kv. isAllowedByRobots s (fst kv) = Some True) (results s)"

text \<open>
  The instance after an iteration whose navigation failed: the head of the queue is
  gone, \<open>results\<close> holds an error result for its URL, one page was opened, navigated
  and closed; \<open>visitedUrls\<close> is as before.
\<close>

definition after_failure :: "crawler \<Rightarrow> string \<Rightarrow> string \<Rightarrow> crawler" where
  "after_failure s msg now =
     (let e = hd (crawlQueue s) in
      s\<lparr>crawlQueue := tl (crawlQueue s),
        results :=
          AList.update (q_url e)
            (PageError \<lparr>pe_url = q_url e, pe_error = msg, pe_depth = q_depth e,
                        pe_parentUrl = q_parentUrl e, pe_crawledAt = now\<rparr>)
            (results s),
        tick := Suc (tick s),
        trace := trace s @ [Dequeue e, NewPage (q_url e), Navigate (q_url e), PageClose (q_url e)]\<rparr>)"

section \<open>A sample site\<close>

text \<open>
  A platform, a world and a configuration on which the definitions are evaluated. The
  platform tabulates the URL class at seven inputs (\<open>new URL(s).href\<close> appends the
  slash of an empty path and keeps every other path, an empty last segment included).
  Outside the table it rejects; the examples use two such inputs, \<open>https://\<close> (no
  host) and \<open>https://exa mple.com\<close> (a space in the host), which the URL class
  rejects. The site: the seed links to \<open>/b\<close>, \<open>/a\<close>, \<open>//\<close> and \<open>/p\<close>; \<open>/a\<close> links
  to \<open>/b\<close>; every page but the seed and \<open>/a\<close> refuses the connection; robots.txt
  disallows \<open>/p\<close>.
\<close>

definition sample_urls :: "string list" where
  "sample_urls = [''https://example.com/'', ''https://example.com//'', ''https://example.com/a'',
                  ''https://example.com/a/'', ''https://example.com/b'', ''https://example.com/p'']"

definition sample_href :: "string \<Rightarrow> string option" where
  "sample_href s = (if s = ''https://example.com'' then Some ''https://example.com/''
                    else if s \<in> set sample_urls then Some s else None)"

definition sample_platform :: platform where
  "sample_platform =
     \<lparr>url_href = sample_href,
      url_resolve = (\<lambda>rel base. sample_href rel),
      url_hostname = (\<lambda>s. map_option (\<lambda>h. ''example.com'') (sample_href s))\<rparr>"

definition sample_page :: "string list \<Rightarrow> page_handle" where
  "sample_page anchors =
     \<lparr>page_content = Inr \<lparr>dom_meta = [], dom_anchors = anchors, dom_stylesheets = [],
                           dom_scripts = [], dom_imgs = [],
                           dom_headings = \<lparr>h1 = [], h2 = [], h3 = [], h4 = [], h5 = [], h6 = []\<rparr>\<rparr>,
      page_title = Inr ''Example'',
      page_screenshot = Inl ''Protocol error''\<rparr>"

definition sample_ok :: "string list \<Rightarrow> page_visit" where
  "sample_ok anchors =
     \<lparr>newPage_error = None,
      goto_result = Inr (Some \<lparr>resp_headers = (\<lambda>h. None), resp_status = 200\<rparr>, 120),
      page = sample_page anchors, visit_iso = ''2024-01-01T00:00:00.000Z'', close_error = None\<rparr>"

definition sample_down :: page_visit where
  "sample_down =
     \<lparr>newPage_error = None, goto_result = Inl ''net::ERR_CONNECTION_REFUSED'',
      page = sample_page [], visit_iso = ''2024-01-01T00:00:00.000Z'', close_error = None\<rparr>"

definition sample_visit :: "nat \<Rightarrow> string \<Rightarrow> page_visit" where
  "sample_visit n url =
     (if url = ''https://example.com''
      then sample_ok [''https://example.com/b'', ''https://example.com/a'',
                      ''https://example.com//'', ''https://example.com/p'']
      else if url = ''https://example.com/a'' then sample_ok [''https://example.com/b'']
      else sample_down)"

definition sample_robots :: "string \<Rightarrow> string \<Rightarrow> bool option" where
  "sample_robots url ua = Some (url \<noteq> ''https://example.com/p'')"

definition sample_world :: world where
  "sample_world =
     \<lparr>fresh_id = ''crawl_1_abc'',
      robots_fetch = Some sample_robots,
      launch_error = None, visit = sample_visit, browser_close_error = (\<lambda>n. None),
      start_now = 1000, report_now = 5000,
      report_iso = ''2024-01-01T00:00:04.000Z''\<rparr>"

definition sample_config :: crawl_config where
  "sample_config = DEFAULT_CONFIG\<lparr>maxPages := 3\<rparr>"

definition sample_crawler :: crawler where
  "sample_crawler = init_crawler ''crawl_1_abc'' ''https://example.com'' sample_config"

text \<open>
  The sample crawl after its first iteration, and an instance at the head of the loop
  written by hand: the seeded sample crawler with an entry of depth 6, deeper than
  \<open>maxDepth = 5\<close>, queued before the seed.
\<close>

definition sample_deep :: crawler where
  "sample_deep =
     (seeded sample_world sample_crawler)
       \<lparr>crawlQueue :=
          [\<lparr>q_url = ''https://example.com/a'', q_depth = 6, q_parentUrl = Some ''https://example.com''\<rparr>,
           \<lparr>q_url = ''https://example.com'', q_depth = 0, q_parentUrl = None\<rparr>]\<rparr>"

definition sample_first :: crawler where
  "sample_first = snd (loop_body sample_platform sample_world (seeded sample_world sample_crawler))"

text \<open>
  The sample crawler with the robots.txt check switched off.
\<close>

definition sample_open :: crawler where
  "sample_open =
     init_crawler ''crawl_1_abc'' ''https://example.com'' (sample_config\<lparr>respectRobotsTxt := False\<rparr>)"

text \<open>
  An instance seeded at \<open>https://example.com/x\<close> that holds five error results.
\<close>

definition sample_keyed :: crawler where
  "sample_keyed =
     (init_crawler ''crawl_1_abc'' ''https://example.com/x'' sample_config)
       \<lparr>results :=
          map (\<lambda>u. (u, PageError \<lparr>pe_url = u, pe_error = ''net::ERR_CONNECTION_REFUSED'',
                                   pe_depth = 1, pe_parentUrl = Some ''https://example.com/x'',
                                   pe_crawledAt = ''2024-01-01T00:00:00.000Z''\<rparr>))
            [''https://example.com/x'', ''https://example.com/x10'',
             ''https://example.com/x__proto__'', ''https://example.com/x/y'',
             ''https://example.com/x2'']\<rparr>"

text \<open>
  The sample world with a browser that fails to launch, with one whose first
  \<open>close()\<close> rejects, and with one that rejects every \<open>newPage()\<close>.
\<close>

definition sample_no_browser :: world where
  "sample_no_browser = sample_world\<lparr>launch_error := Some ''Failed to launch the browser process''\<rparr>"

definition sample_stuck :: world where
  "sample_stuck =
     sample_world\<lparr>browser_close_error :=
       (\<lambda>n. if n = 0 then Some ''Protocol error (Browser.close): Target closed.'' else None)\<rparr>"

definition sample_crash :: world where
  "sample_crash =
     sample_world\<lparr>visit := (\<lambda>n url. sample_down\<lparr>newPage_error := Some ''Target closed''\<rparr>)\<rparr>"

text \<open>
  A second site: the seed links to six pages, and each of the seven pages loads in
  800 ms; crawled with the default configuration. Its platform tabulates the URL class
  at the seven pages, three assets and one page of another host.
\<close>

definition slow_urls :: "string list" where
  "slow_urls = [''https://example.com/p1'', ''https://example.com/p2'', ''https://example.com/p3'',
                ''https://example.com/p4'', ''https://example.com/p5'', ''https://example.com/p6'']"

definition asset_urls :: "string list" where
  "asset_urls = [''https://example.com/site.css'', ''https://example.com/app.js'',
                 ''https://example.com/logo.png'', ''https://partner.example.org/'']"

definition slow_href :: "string \<Rightarrow> string option" where
  "slow_href s = (if s = ''https://example.com'' then Some ''https://example.com/''
                  else if s = ''https://partner.example.org'' then Some ''https://partner.example.org/''
                  else if s \<in> set slow_urls \<or> s \<in> set asset_urls then Some s else None)"

definition slow_platform :: platform where
  "slow_platform =
     \<lparr>url_href = slow_href,
      url_resolve = (\<lambda>rel base. slow_href rel),
      url_hostname = (\<lambda>s. map_option
         (\<lambda>h. if prefix ''https://partner.example.org'' h then ''partner.example.org''
              else ''example.com'') (slow_href s))\<rparr>"

definition slow_world :: world where
  "slow_world =
     sample_world\<lparr>visit := (\<lambda>n url.
        (sample_ok (if url = ''https://example.com'' then slow_urls else []))
          \<lparr>goto_result := Inr (Some \<lparr>resp_headers = (\<lambda>h. None), resp_status = 200\<rparr>, 800)\<rparr>)\<rparr>"

definition slow_crawler :: crawler where
  "slow_crawler = init_crawler ''crawl_1_abc'' ''https://example.com'' DEFAULT_CONFIG"




section \<open>Lemmas\<close>

lemma strip_trailing_slash_snoc: "strip_trailing_slash (h @ ''/'') = h"
  by (simp add: strip_trailing_slash_def)

lemma strip_trailing_slash_id: "\<not> suffix ''/'' h \<Longrightarrow> strip_trailing_slash h = h"
  by (cases h rule: rev_cases) (simp_all add: strip_trailing_slash_def)

lemma strip_trailing_slash_cases:
  obtains "\<not> suffix ''/'' h" "strip_trailing_slash h = h"
  | v where "h = v @ ''/''" "strip_trailing_slash h = v"
proof (cases h rule: rev_cases)
  case Nil
  then show ?thesis using that(1) by (simp add: strip_trailing_slash_def)
next
  case (snoc v c)
  show ?thesis
  proof (cases "c = CHR ''/''")
    case True
    with snoc show ?thesis using that(2) [of v] by (simp add: strip_trailing_slash_def)
  next
    case False
    with snoc show ?thesis using that(1) by (simp add: strip_trailing_slash_def)
  qed
qed

lemma prefix_strip:
  assumes "prefix p h" "length p < length h"
  shows "prefix p (strip_trailing_slash h)"
proof (cases h rule: strip_trailing_slash_cases)
  case 1
  with assms show ?thesis by simp
next
  case (2 v)
  from assms 2(1) have "prefix p (v @ ''/'')" "length p \<le> length v" by simp_all
  then have "prefix p v"
    by (auto simp add: prefix_snoc)
  with 2 show ?thesis by simp
qed

lemma sample_laws: "serializer_laws sample_platform"
  unfolding serializer_laws_def
proof (intro conjI allI impI)
  fix s h assume "url_href sample_platform s = Some (h @ ''/'')" "\<not> suffix ''/'' h"
  then show "url_href sample_platform h = Some h \<or> url_href sample_platform h = Some (h @ ''/'')"
    by (auto simp add: sample_platform_def sample_href_def sample_urls_def
        snoc_eq_iff_butlast split: if_splits)
qed (auto simp add: sample_platform_def sample_href_def sample_urls_def split: if_splits)

lemma dequeued_append [simp]: "dequeued (xs @ ys) = dequeued xs @ dequeued ys"
  by (simp add: dequeued_def)

lemma browser_events_append [simp]: "browser_events (xs @ ys) = browser_events xs @ browser_events ys"
  by (simp add: browser_events_def)

lemma in_update_cases:
  "kv \<in> set (AList.update k v al) \<Longrightarrow> kv = (k, v) \<or> kv \<in> set al"
  by (induction al) (auto split: if_splits)

lemma data_count_update_le: "data_count (AList.update k v al) \<le> Suc (data_count al)"
  by (induction al) (auto simp add: data_count_def)

lemma data_count_update_error:
  "\<not> is_page_data v \<Longrightarrow> data_count (AList.update k v al) \<le> data_count al"
  by (induction al) (auto simp add: data_count_def)

lemma foldl_queue_link_frame2:
  "browser (foldl (queue_link url depth) s ls) = browser s"
  "crawlId (foldl (queue_link url depth) s ls) = crawlId s"
  "startTime (foldl (queue_link url depth) s ls) = startTime s"
  by (induction ls arbitrary: s; simp add: queue_link_def)+

lemma frame_crawlPage:
  "config (snd (crawlPage P v url depth par s)) = config s"
  "startUrl (snd (crawlPage P v url depth par s)) = startUrl s"
  "robotsParser (snd (crawlPage P v url depth par s)) = robotsParser s"
  "browser (snd (crawlPage P v url depth par s)) = browser s"
  "crawlId (snd (crawlPage P v url depth par s)) = crawlId s"
  "startTime (snd (crawlPage P v url depth par s)) = startTime s"
  "tick (snd (crawlPage P v url depth par s)) = Suc (tick s)"
  by (simp_all add: crawlPage_def Let_def queue_links_def foldl_queue_link_frame
      foldl_queue_link_frame2 record_error_def
      split: option.split sum.split prod.split)

lemma frame_loop_body:
  "config (snd (loop_body P W s)) = config s"
  "startUrl (snd (loop_body P W s)) = startUrl s"
  "robotsParser (snd (loop_body P W s)) = robotsParser s"
  "browser (snd (loop_body P W s)) = browser s"
  "crawlId (snd (loop_body P W s)) = crawlId s"
  "startTime (snd (loop_body P W s)) = startTime s"
  by (simp_all add: loop_body_def Let_def frame_crawlPage)

text \<open>The trace of a page step: page events only, appended.\<close>

lemma trace_crawlPage:
  "\<exists>tr. trace (snd (crawlPage P v url depth par s)) = trace s @ tr
        \<and> set tr \<subseteq> {NewPage url, Navigate url, PageClose url}"
  by (simp add: crawlPage_def Let_def queue_links_def foldl_queue_link_frame record_error_def
      split: option.split sum.split prod.split)

lemma trace_loop_body:
  "\<exists>tr. trace (snd (loop_body P W s)) = trace s @ Dequeue (hd (crawlQueue s)) # tr
        \<and> dequeued tr = [] \<and> browser_events tr = []"
proof -
  let ?e = "hd (crawlQueue s)"
  have page: "dequeued tr = [] \<and> browser_events tr = []"
    if "set tr \<subseteq> {NewPage u, Navigate u, PageClose u}" for tr u
    using that by (induction tr) (auto simp add: dequeued_def browser_events_def)
  show ?thesis
  proof (cases "fst (loop_body P W s) = None \<and> snd (loop_body P W s) =
      s\<lparr>crawlQueue := tl (crawlQueue s), trace := trace s @ [Dequeue ?e]\<rparr>")
    case True
    then show ?thesis by (intro exI [of _ "[]"]) (simp add: dequeued_def browser_events_def)
  next
    case False
    then have body: "loop_body P W s =
        crawlPage P (visit W (tick s) (q_url ?e)) (q_url ?e) (q_depth ?e) (q_parentUrl ?e)
          (s\<lparr>crawlQueue := tl (crawlQueue s), trace := trace s @ [Dequeue ?e]\<rparr>)"
      by (auto simp add: loop_body_def Let_def split: if_splits)
    from trace_crawlPage [of P "visit W (tick s) (q_url ?e)" "q_url ?e" "q_depth ?e" "q_parentUrl ?e"
        "s\<lparr>crawlQueue := tl (crawlQueue s), trace := trace s @ [Dequeue ?e]\<rparr>"]
    obtain tr where "trace (snd (loop_body P W s)) = (trace s @ [Dequeue ?e]) @ tr"
      and "set tr \<subseteq> {NewPage (q_url ?e), Navigate (q_url ?e), PageClose (q_url ?e)}"
      unfolding body by auto
    with page [of tr "q_url ?e"] show ?thesis by auto
  qed
qed

lemma extractPageData_fields:
  "extractPageData P s pg url resp loadTime depth par now = Inr d \<Longrightarrow>
     pd_url d = url \<and> pd_depth d = depth \<and> pd_parentUrl d = par \<and> pd_loadTime d = loadTime"
  by (auto simp add: extractPageData_def Let_def split: sum.splits option.splits)

lemma results_crawlPage:
  "results (snd (crawlPage P v url depth par s)) = results s
   \<or> (\<exists>r. results (snd (crawlPage P v url depth par s)) = AList.update url r (results s)
          \<and> result_depth r = depth)"
proof (cases "newPage_error v")
  case (Some e)
  then show ?thesis by (simp add: crawlPage_def)
next
  case None
  show ?thesis
  proof (cases "goto_result v")
    case (Inl msg)
    let ?r = "PageError \<lparr>pe_url = url, pe_error = msg, pe_depth = depth,
                          pe_parentUrl = par, pe_crawledAt = visit_iso v\<rparr>"
    from None Inl
    have "results (snd (crawlPage P v url depth par s)) = AList.update url ?r (results s)"
      by (simp add: crawlPage_def Let_def record_error_def)
    moreover have "result_depth ?r = depth" by simp
    ultimately show ?thesis by blast
  next
    case (Inr rl)
    obtain resp loadTime where rl: "rl = (resp, loadTime)" by (cases rl)
    let ?s3 = "s\<lparr>tick := Suc (tick s), trace := trace s @ [NewPage url, Navigate url],
                 visitedUrls := set_add url (visitedUrls s)\<rparr>"
    show ?thesis
    proof (cases "extractPageData P ?s3 (page v) url resp loadTime depth par (visit_iso v)")
      case (Inl msg)
      let ?r = "PageError \<lparr>pe_url = url, pe_error = msg, pe_depth = depth,
                            pe_parentUrl = par, pe_crawledAt = visit_iso v\<rparr>"
      from None \<open>goto_result v = Inr rl\<close> rl Inl
      have "results (snd (crawlPage P v url depth par s)) = AList.update url ?r (results s)"
        by (simp add: crawlPage_def Let_def record_error_def)
      moreover have "result_depth ?r = depth" by simp
      ultimately show ?thesis by blast
    next
      case (Inr d)
      from None \<open>goto_result v = Inr rl\<close> rl Inr
      have "results (snd (crawlPage P v url depth par s)) = AList.update url (PageData d) (results s)"
        by (simp add: crawlPage_def Let_def queue_links_frame)
      moreover from extractPageData_fields [OF Inr] have "result_depth (PageData d) = depth" by simp
      ultimately show ?thesis by blast
    qed
  qed
qed

lemma count_crawlPage:
  assumes "url \<notin> set (visitedUrls s)"
  shows "data_count (results (snd (crawlPage P v url depth par s))) + length (visitedUrls s)
           \<le> data_count (results s) + length (visitedUrls (snd (crawlPage P v url depth par s)))
         \<and> length (visitedUrls (snd (crawlPage P v url depth par s))) \<le> Suc (length (visitedUrls s))"
  using assms data_count_update_le [of url _ "results s"]
    data_count_update_error [of _ url "results s"]
  by (auto simp add: crawlPage_def Let_def queue_links_frame record_error_def set_add_def
      split: option.split sum.split prod.split)

lemma queue_crawlPage:
  "\<exists>added. crawlQueue (snd (crawlPage P v url depth par s)) = crawlQueue s @ added
      \<and> (\<forall>e \<in> set added. q_depth e = depth + 1 \<and> depth < maxDepth (config s))"
  by (auto simp add: crawlPage_def Let_def queue_links_def foldl_queue_link_queue new_entries_def
      record_error_def split: option.split sum.split prod.split)

text \<open>One iteration: what it does to the results, the counts and the queue.\<close>

lemma results_loop_body:
  "results (snd (loop_body P W s)) = results s
   \<or> (\<exists>r. results (snd (loop_body P W s)) = AList.update (q_url (hd (crawlQueue s))) r (results s)
          \<and> result_depth r = q_depth (hd (crawlQueue s))
          \<and> q_depth (hd (crawlQueue s)) \<le> maxDepth (config s)
          \<and> isAllowedByRobots s (q_url (hd (crawlQueue s))) = Some True)"
proof -
  let ?e = "hd (crawlQueue s)"
  let ?s1 = "s\<lparr>crawlQueue := tl (crawlQueue s), trace := trace s @ [Dequeue ?e]\<rparr>"
  have allowed: "isAllowedByRobots ?s1 u = isAllowedByRobots s u" for u
    by (simp add: isAllowedByRobots_def split: option.split)
  show ?thesis
  proof (cases "q_url ?e \<in> set (visitedUrls s) \<or> q_depth ?e > maxDepth (config s)
                  \<or> isAllowedByRobots s (q_url ?e) \<noteq> Some True")
    case True
    then show ?thesis by (auto simp add: loop_body_def Let_def allowed)
  next
    case False
    then have body: "loop_body P W s =
        crawlPage P (visit W (tick s) (q_url ?e)) (q_url ?e) (q_depth ?e) (q_parentUrl ?e) ?s1"
      by (simp add: loop_body_def Let_def allowed)
    from results_crawlPage [of P "visit W (tick s) (q_url ?e)" "q_url ?e" "q_depth ?e" "q_parentUrl ?e" ?s1]
    show ?thesis unfolding body using False by auto
  qed
qed

lemma count_loop_body:
  "data_count (results (snd (loop_body P W s))) + length (visitedUrls s)
     \<le> data_count (results s) + length (visitedUrls (snd (loop_body P W s)))
   \<and> length (visitedUrls (snd (loop_body P W s))) \<le> Suc (length (visitedUrls s))"
proof -
  let ?e = "hd (crawlQueue s)"
  let ?s1 = "s\<lparr>crawlQueue := tl (crawlQueue s), trace := trace s @ [Dequeue ?e]\<rparr>"
  show ?thesis
  proof (cases "q_url ?e \<in> set (visitedUrls s) \<or> q_depth ?e > maxDepth (config s)
                  \<or> isAllowedByRobots ?s1 (q_url ?e) \<noteq> Some True")
    case True
    then show ?thesis by (auto simp add: loop_body_def Let_def)
  next
    case False
    then have body: "loop_body P W s =
        crawlPage P (visit W (tick s) (q_url ?e)) (q_url ?e) (q_depth ?e) (q_parentUrl ?e) ?s1"
      by (simp add: loop_body_def Let_def)
    from False have "q_url ?e \<notin> set (visitedUrls ?s1)" by simp
    from count_crawlPage [OF this, of P "visit W (tick s) (q_url ?e)" "q_depth ?e" "q_parentUrl ?e"]
    show ?thesis unfolding body by simp
  qed
qed

lemma queue_loop_body:
  "\<exists>added. crawlQueue (snd (loop_body P W s)) = tl (crawlQueue s) @ added
      \<and> (\<forall>e \<in> set added. q_depth e = q_depth (hd (crawlQueue s)) + 1
            \<and> q_depth (hd (crawlQueue s)) < maxDepth (config s))"
proof -
  let ?e = "hd (crawlQueue s)"
  let ?s1 = "s\<lparr>crawlQueue := tl (crawlQueue s), trace := trace s @ [Dequeue ?e]\<rparr>"
  show ?thesis
  proof (cases "q_url ?e \<in> set (visitedUrls s) \<or> q_depth ?e > maxDepth (config s)
                  \<or> isAllowedByRobots ?s1 (q_url ?e) \<noteq> Some True")
    case True
    then show ?thesis by (intro exI [of _ "[]"]) (auto simp add: loop_body_def Let_def)
  next
    case False
    then have body: "loop_body P W s =
        crawlPage P (visit W (tick s) (q_url ?e)) (q_url ?e) (q_depth ?e) (q_parentUrl ?e) ?s1"
      by (simp add: loop_body_def Let_def)
    from queue_crawlPage [of P "visit W (tick s) (q_url ?e)" "q_url ?e" "q_depth ?e" "q_parentUrl ?e" ?s1]
    show ?thesis unfolding body by simp
  qed
qed

lemma reachable_invariant:
  assumes "reachable P W c s"
    and "launch_error W = None \<Longrightarrow> I (seeded W c)"
    and "\<And>t. I t \<Longrightarrow> loop_guard t \<Longrightarrow> I (snd (loop_body P W t))"
  shows "I s"
  using assms by (induction rule: reachable.induct) auto

lemma exit_invariant:
  assumes "I s"
    and "\<And>t. I t \<Longrightarrow> loop_guard t \<Longrightarrow> I (snd (loop_body P W t))"
  shows "I (snd (crawl_loop P W s))"
  using assms
proof (induction P W s rule: crawl_loop.induct)
  case (1 P W s)
  show ?case
  proof (cases "loop_guard s")
    case False
    with "1.prems"(1) show ?thesis by (simp add: crawl_loop.simps)
  next
    case True
    note step = "1.prems"(2) [OF "1.prems"(1) True]
    show ?thesis
    proof (cases "fst (loop_body P W s) = None")
      case None: True
      from "1.IH" [of "loop_body P W s", OF True refl None step "1.prems"(2)] True None show ?thesis
        by (simp add: crawl_loop.simps [of P W s] Let_def)
    next
      case False
      with True step show ?thesis
        by (auto simp add: crawl_loop.simps [of P W s] Let_def)
    qed
  qed
qed

lemma browser_crawl_loop: "browser s \<Longrightarrow> browser (snd (crawl_loop P W s))"
  by (rule exit_invariant) (simp_all add: frame_loop_body)

lemma browser_seeded: "browser (seeded W c)"
  by (simp add: seeded_def Let_def loadRobotsTxt_def)

text \<open>The exit of \<open>crawl\<close> adds calls of \<open>browser.close()\<close> to the trace, nothing else.\<close>

lemma crawl_exit:
  assumes "launch_error W = None"
  shows "results (snd (crawl P W c)) = results (snd (crawl_loop P W (seeded W c)))"
    and "visitedUrls (snd (crawl P W c)) = visitedUrls (snd (crawl_loop P W (seeded W c)))"
    and "crawlQueue (snd (crawl P W c)) = crawlQueue (snd (crawl_loop P W (seeded W c)))"
    and "config (snd (crawl P W c)) = config (snd (crawl_loop P W (seeded W c)))"
    and "dequeued (trace (snd (crawl P W c))) = dequeued (trace (snd (crawl_loop P W (seeded W c))))"
  using assms
  by (simp_all add: crawl_def Let_def catch_close_def browser_close_def dequeued_def
      split: option.split)

lemma crawl_launch_failed:
  "launch_error W = Some e \<Longrightarrow>
     crawl P W (init_crawler ident start cfg) =
       (Inl e, loadRobotsTxt W ((init_crawler ident start cfg)\<lparr>startTime := Some (start_now W)\<rparr>))"
  by (simp add: crawl_def catch_close_def loadRobotsTxt_def init_crawler_def)

lemma depth_inv_step:
  assumes "depth_inv s"
  shows "depth_inv (snd (loop_body P W s))"
proof -
  from assms have old: "result_depth (snd kv) \<le> maxDepth (config s)" if "kv \<in> set (results s)" for kv
    using that by (simp add: depth_inv_def list_all_iff)
  have "result_depth (snd kv) \<le> maxDepth (config s)"
    if kv: "kv \<in> set (results (snd (loop_body P W s)))" for kv
    using results_loop_body [of P W s]
  proof
    assume "results (snd (loop_body P W s)) = results s"
    with kv old show ?thesis by simp
  next
    assume "\<exists>r. results (snd (loop_body P W s)) = AList.update (q_url (hd (crawlQueue s))) r (results s)
          \<and> result_depth r = q_depth (hd (crawlQueue s))
          \<and> q_depth (hd (crawlQueue s)) \<le> maxDepth (config s)
          \<and> isAllowedByRobots s (q_url (hd (crawlQueue s))) = Some True"
    then obtain r where r: "results (snd (loop_body P W s)) = AList.update (q_url (hd (crawlQueue s))) r (results s)"
      "result_depth r \<le> maxDepth (config s)" by auto
    from kv [unfolded r(1)] have "kv = (q_url (hd (crawlQueue s)), r) \<or> kv \<in> set (results s)"
      by (rule in_update_cases)
    then show ?thesis
    proof
      assume "kv = (q_url (hd (crawlQueue s)), r)"
      with r(2) show ?thesis by simp
    next
      assume "kv \<in> set (results s)"
      then show ?thesis by (rule old)
    qed
  qed
  then show ?thesis
    by (simp add: depth_inv_def list_all_iff frame_loop_body)
qed

lemma depth_inv_seeded: "depth_inv (seeded W (init_crawler ident start cfg))"
  by (simp add: depth_inv_def seeded_def Let_def loadRobotsTxt_def init_crawler_def)

lemma config_reachable: "reachable P W c s \<Longrightarrow> config s = config c"
  by (rule reachable_invariant [where I = "\<lambda>s. config s = config c"])
     (simp_all add: frame_loop_body seeded_def Let_def loadRobotsTxt_def)

lemma config_crawl_loop: "config (snd (crawl_loop P W s)) = config s"
  by (rule exit_invariant [where I = "\<lambda>t. config t = config s"]) (simp_all add: frame_loop_body)

lemma config_seeded: "config (seeded W c) = config c"
  by (simp add: seeded_def Let_def loadRobotsTxt_def)

lemma skip_too_deep:
  "maxDepth (config s) < q_depth (hd (crawlQueue s)) \<Longrightarrow>
     loop_body P W s =
       (None, s\<lparr>crawlQueue := tl (crawlQueue s), trace := trace s @ [Dequeue (hd (crawlQueue s))]\<rparr>)"
  by (simp add: loop_body_def Let_def)

lemma queue_inv_step:
  assumes "queue_inv s" "loop_guard s"
  shows "queue_inv (snd (loop_body P W s))"
proof -
  from queue_loop_body [of P W s] obtain added
    where ad: "crawlQueue (snd (loop_body P W s)) = tl (crawlQueue s) @ added"
      "\<forall>e \<in> set added. q_depth e = q_depth (hd (crawlQueue s)) + 1
          \<and> q_depth (hd (crawlQueue s)) < maxDepth (config s)"
    by blast
  from assms(2) have "set (tl (crawlQueue s)) \<subseteq> set (crawlQueue s)"
    by (cases "crawlQueue s") (auto simp add: loop_guard_def)
  with assms(1) have "\<forall>e \<in> set (tl (crawlQueue s)). q_depth e \<le> max 0 (maxDepth (config s))"
    by (auto simp add: queue_inv_def list_all_iff)
  moreover from ad(2) have "\<forall>e \<in> set added. q_depth e \<le> max 0 (maxDepth (config s))"
    by auto
  ultimately show ?thesis
    by (auto simp add: queue_inv_def list_all_iff ad(1) frame_loop_body)
qed

lemma queue_inv_seeded: "queue_inv (seeded W (init_crawler ident start cfg))"
  by (simp add: queue_inv_def seeded_def Let_def loadRobotsTxt_def init_crawler_def)

lemma reachable_sample_first:
  "reachable sample_platform sample_world sample_crawler sample_first"
proof -
  have l: "launch_error sample_world = None" by (simp add: sample_world_def)
  have g: "loop_guard (seeded sample_world sample_crawler)" by code_simp
  have n: "fst (loop_body sample_platform sample_world (seeded sample_world sample_crawler)) = None"
    by code_simp
  from reachable.iterate [OF reachable.entry [OF l] g n] show ?thesis
    by (simp add: sample_first_def)
qed

lemma budget_inv_step:
  assumes "budget_inv s" "loop_guard s"
  shows "budget_inv (snd (loop_body P W s))"
  using assms count_loop_body [of P W s]
  by (simp add: budget_inv_def loop_guard_def frame_loop_body)

lemma budget_inv_seeded: "budget_inv (seeded W (init_crawler ident start cfg))"
  by (simp add: budget_inv_def seeded_def Let_def loadRobotsTxt_def init_crawler_def data_count_def)

lemma bfs_depths_step:
  fixes d :: int
  assumes "sorted (A @ d # T)" "\<forall>x \<in> set T. x \<le> d + 1" "\<forall>x \<in> set N. x = d + 1"
  shows "sorted (A @ [d] @ T @ N)" and "\<forall>x \<in> set (T @ N). x \<le> hd (T @ N) + 1"
proof -
  have N: "sorted N"
    using assms(3) by (induction N) auto
  from assms(1) have A: "\<forall>x \<in> set A. x \<le> d"
    by (simp add: sorted_append)
  have "\<forall>x \<in> set (A @ d # T). \<forall>y \<in> set N. x \<le> y"
  proof (intro ballI)
    fix x y assume x: "x \<in> set (A @ d # T)" and y: "y \<in> set N"
    from y assms(3) have "y = d + 1" by simp
    moreover from x A assms(2) have "x \<le> d + 1" by fastforce
    ultimately show "x \<le> y" by simp
  qed
  with assms(1) N have "sorted ((A @ d # T) @ N)"
    by (subst sorted_append) simp
  then show "sorted (A @ [d] @ T @ N)" by simp
  show "\<forall>x \<in> set (T @ N). x \<le> hd (T @ N) + 1"
  proof (cases T)
    case Nil
    with assms(3) show ?thesis by (cases N) auto
  next
    case (Cons t T')
    with assms(1) have "d \<le> t" by (simp add: sorted_append)
    with assms(2,3) Cons show ?thesis by auto
  qed
qed

lemma bfs_inv_step:
  assumes inv: "bfs_inv s" and g: "loop_guard s"
  shows "bfs_inv (snd (loop_body P W s))"
proof -
  from g obtain e T where q: "crawlQueue s = e # T"
    by (cases "crawlQueue s") (auto simp add: loop_guard_def)
  from trace_loop_body [of P W s] q obtain tr
    where tr: "trace (snd (loop_body P W s)) = trace s @ Dequeue e # tr" "dequeued tr = []"
    by auto
  from queue_loop_body [of P W s] q obtain added
    where ad: "crawlQueue (snd (loop_body P W s)) = T @ added"
      "\<forall>x \<in> set added. q_depth x = q_depth e + 1"
    by auto
  have dq: "dequeued (trace (snd (loop_body P W s))) = dequeued (trace s) @ [e]"
    using tr by (simp add: dequeued_def)
  let ?A = "map q_depth (dequeued (trace s))"
  from inv q have 1: "sorted (?A @ q_depth e # map q_depth T)"
    and 2: "\<forall>x \<in> set (map q_depth T). x \<le> q_depth e + 1"
    by (auto simp add: bfs_inv_def list_all_iff)
  from ad(2) have 3: "\<forall>x \<in> set (map q_depth added). x = q_depth e + 1" by auto
  note step = bfs_depths_step [OF 1 2 3]
  have hd_map: "hd (map q_depth T @ map q_depth added) = q_depth (hd (T @ added))"
    if "T @ added \<noteq> []"
    using that by (cases T; cases added) auto
  from step(1) have "sorted (map q_depth (dequeued (trace (snd (loop_body P W s)))
      @ crawlQueue (snd (loop_body P W s))))"
    by (simp add: dq ad(1))
  moreover have "list_all (\<lambda>x. q_depth x \<le> q_depth (hd (T @ added)) + 1) (T @ added)"
  proof (cases "T @ added = []")
    case True
    then show ?thesis by simp
  next
    case False
    from step(2) hd_map [OF False] show ?thesis
      by (auto simp add: list_all_iff)
  qed
  ultimately show ?thesis by (simp add: bfs_inv_def ad(1))
qed

lemma bfs_inv_seeded: "bfs_inv (seeded W (init_crawler ident start cfg))"
  by (simp add: bfs_inv_def seeded_def Let_def loadRobotsTxt_def init_crawler_def dequeued_def)

lemma isAllowedByRobots_frame:
  "config t = config s \<Longrightarrow> robotsParser t = robotsParser s \<Longrightarrow>
     isAllowedByRobots t url = isAllowedByRobots s url"
  by (simp add: isAllowedByRobots_def split: option.split)

lemma robots_inv_step:
  assumes "robots_inv s"
  shows "robots_inv (snd (loop_body P W s))"
proof -
  let ?t = "snd (loop_body P W s)"
  have same: "isAllowedByRobots ?t u = isAllowedByRobots s u" for u
    by (rule isAllowedByRobots_frame) (simp_all add: frame_loop_body)
  from assms have old: "isAllowedByRobots s (fst kv) = Some True" if "kv \<in> set (results s)" for kv
    using that by (simp add: robots_inv_def list_all_iff)
  have "isAllowedByRobots s (fst kv) = Some True" if kv: "kv \<in> set (results ?t)" for kv
    using results_loop_body [of P W s]
  proof
    assume "results ?t = results s"
    with kv old show ?thesis by simp
  next
    assume "\<exists>r. results ?t = AList.update (q_url (hd (crawlQueue s))) r (results s)
          \<and> result_depth r = q_depth (hd (crawlQueue s))
          \<and> q_depth (hd (crawlQueue s)) \<le> maxDepth (config s)
          \<and> isAllowedByRobots s (q_url (hd (crawlQueue s))) = Some True"
    then obtain r where r: "results ?t = AList.update (q_url (hd (crawlQueue s))) r (results s)"
      "isAllowedByRobots s (q_url (hd (crawlQueue s))) = Some True" by auto
    from kv [unfolded r(1)] have "kv = (q_url (hd (crawlQueue s)), r) \<or> kv \<in> set (results s)"
      by (rule in_update_cases)
    then show ?thesis
    proof
      assume "kv = (q_url (hd (crawlQueue s)), r)"
      with r(2) show ?thesis by simp
    next
      assume "kv \<in> set (results s)"
      then show ?thesis by (rule old)
    qed
  qed
  then show ?thesis
    by (simp add: robots_inv_def list_all_iff same)
qed

lemma robots_inv_seeded: "robots_inv (seeded W (init_crawler ident start cfg))"
  by (simp add: robots_inv_def seeded_def Let_def loadRobotsTxt_def init_crawler_def)

lemma robotsParser_seeded: "robotsParser (seeded W c) = robots_fetch W"
  by (simp add: seeded_def Let_def loadRobotsTxt_def)

lemma robotsParser_reachable: "reachable P W c s \<Longrightarrow> robotsParser s = robots_fetch W"
  by (rule reachable_invariant [where I = "\<lambda>s. robotsParser s = robots_fetch W"])
     (simp_all add: frame_loop_body robotsParser_seeded)

lemma robotsParser_crawl_loop: "robotsParser (snd (crawl_loop P W s)) = robotsParser s"
  by (rule exit_invariant [where I = "\<lambda>t. robotsParser t = robotsParser s"])
     (simp_all add: frame_loop_body)

lemma robots_inv_blocks:
  assumes "robots_inv s" "respectRobotsTxt (config s)" "robotsParser s = Some isAllowed"
    "isAllowed url (userAgent (config s)) \<noteq> Some True"
  shows "url \<notin> fst ` set (results s)"
proof
  assume "url \<in> fst ` set (results s)"
  then obtain kv where "kv \<in> set (results s)" "fst kv = url" by auto
  with assms(1) have "isAllowedByRobots s url = Some True"
    by (auto simp add: robots_inv_def list_all_iff)
  with assms(2-4) show False by (simp add: isAllowedByRobots_def)
qed

lemma extractPageData_frame:
  assumes "startUrl t = startUrl s" "config t = config s"
  shows "extractPageData P t = extractPageData P s"
proof -
  from assms have "isInternalUrl P t = isInternalUrl P s"
    by (intro ext) (simp add: isInternalUrl_def)
  then have "add_link P t = add_link P s"
    by (intro ext) (simp add: add_link_def Let_def split: option.split)
  moreover from assms have "take_screenshot t = take_screenshot s"
    by (intro ext) (simp add: take_screenshot_def)
  ultimately show ?thesis
    by (intro ext) (simp add: extractPageData_def Let_def split: sum.split option.split)
qed

lemma crawlPage_robots:
  "crawlPage P v url depth par (s\<lparr>robotsParser := p\<rparr>)
     = apsnd (\<lambda>t. t\<lparr>robotsParser := p\<rparr>) (crawlPage P v url depth par s)"
proof -
  let ?l = "crawlPage P v url depth par (s\<lparr>robotsParser := p\<rparr>)"
  let ?r = "crawlPage P v url depth par s"
  have ex: "extractPageData P
      (s\<lparr>robotsParser := p, tick := Suc (tick s), trace := trace s @ [NewPage url, Navigate url],
          visitedUrls := set_add url (visitedUrls s)\<rparr>)
    = extractPageData P
      (s\<lparr>tick := Suc (tick s), trace := trace s @ [NewPage url, Navigate url],
          visitedUrls := set_add url (visitedUrls s)\<rparr>)"
    by (rule extractPageData_frame) simp_all
  note defs = crawlPage_def Let_def ex record_error_def queue_links_def foldl_queue_link_frame
    foldl_queue_link_frame2 foldl_queue_link_queue new_entries_def
  have 0: "fst ?l = fst ?r"
    by (simp add: defs split: option.split sum.split prod.split)
  have 1: "visitedUrls (snd ?l) = visitedUrls (snd ?r)"
    by (simp add: defs split: option.split sum.split prod.split)
  have 2: "crawlQueue (snd ?l) = crawlQueue (snd ?r)"
    by (simp add: defs split: option.split sum.split prod.split)
  have 3: "results (snd ?l) = results (snd ?r)"
    by (simp add: defs split: option.split sum.split prod.split)
  have 4: "trace (snd ?l) = trace (snd ?r)"
    by (simp add: defs split: option.split sum.split prod.split)
  have "snd ?l = (snd ?r)\<lparr>robotsParser := p\<rparr>"
    by (rule crawler.equality) (simp_all add: 1 2 3 4 frame_crawlPage)
  with 0 show ?thesis
    by (cases ?l; cases ?r) simp
qed

lemma loop_body_robots:
  assumes "\<not> respectRobotsTxt (config s)" "visit W' = visit W"
  shows "loop_body P W' (s\<lparr>robotsParser := p\<rparr>)
     = apsnd (\<lambda>t. t\<lparr>robotsParser := p\<rparr>) (loop_body P W s)"
proof -
  let ?e = "hd (crawlQueue s)"
  let ?s1 = "s\<lparr>crawlQueue := tl (crawlQueue s), trace := trace s @ [Dequeue ?e]\<rparr>"
  from assms(1) have al: "isAllowedByRobots t u = Some True" if "config t = config s" for t u
    using that by (simp add: isAllowedByRobots_def)
  have upd: "s\<lparr>robotsParser := p, crawlQueue := tl (crawlQueue s), trace := trace s @ [Dequeue ?e]\<rparr>
      = ?s1\<lparr>robotsParser := p\<rparr>" by simp
  show ?thesis
    by (simp add: loop_body_def Let_def al assms(2) upd crawlPage_robots del: crawler.simps)
qed

lemma crawl_loop_robots:
  assumes "\<not> respectRobotsTxt (config s)" "visit W' = visit W"
  shows "crawl_loop P W' (s\<lparr>robotsParser := p\<rparr>)
     = apsnd (\<lambda>t. t\<lparr>robotsParser := p\<rparr>) (crawl_loop P W s)"
  using assms
proof (induction P W s rule: crawl_loop.induct)
  case (1 P W s)
  have g: "loop_guard (s\<lparr>robotsParser := p\<rparr>) = loop_guard s"
    by (simp add: loop_guard_def)
  note body = loop_body_robots [OF "1.prems", of P p]
  show ?case
  proof (cases "loop_guard s")
    case False
    then show ?thesis
      by (simp add: crawl_loop.simps [of P W s] crawl_loop.simps [of P W' "s\<lparr>robotsParser := p\<rparr>"] g)
  next
    case True
    show ?thesis
    proof (cases "fst (loop_body P W s) = None")
      case None: True
      have c: "\<not> respectRobotsTxt (config (snd (loop_body P W s)))"
        using "1.prems"(1) by (simp add: frame_loop_body)
      from "1.IH" [of "loop_body P W s", OF True refl None c "1.prems"(2)] True None
      show ?thesis
        by (simp add: crawl_loop.simps [of P W s] crawl_loop.simps [of P W' "s\<lparr>robotsParser := p\<rparr>"]
            g body Let_def)
    next
      case False
      with True show ?thesis
        by (auto simp add: crawl_loop.simps [of P W s] crawl_loop.simps [of P W' "s\<lparr>robotsParser := p\<rparr>"]
            g body Let_def)
    qed
  qed
qed

lemma generateReport_robots:
  "report_now W' = report_now W \<Longrightarrow> report_iso W' = report_iso W \<Longrightarrow>
     generateReport W' (browser_close (t\<lparr>robotsParser := p\<rparr>)) = generateReport W (browser_close t)"
  by (simp add: generateReport_def browser_close_def)

lemma crawl_robots_bypass:
  assumes "\<not> respectRobotsTxt (config c)"
  shows "fst (crawl P (W\<lparr>robots_fetch := p\<rparr>) c) = fst (crawl P W c)"
proof (cases "launch_error W")
  case (Some e)
  then show ?thesis
    by (simp add: crawl_def catch_close_def loadRobotsTxt_def split: option.split)
next
  case None
  let ?W' = "W\<lparr>robots_fetch := p\<rparr>"
  have s: "seeded ?W' c = (seeded W c)\<lparr>robotsParser := p\<rparr>"
    by (simp add: seeded_def Let_def loadRobotsTxt_def)
  from assms have "\<not> respectRobotsTxt (config (seeded W c))" by (simp add: config_seeded)
  from crawl_loop_robots [OF this, of ?W' W P p]
  have l: "crawl_loop P ?W' (seeded ?W' c)
      = apsnd (\<lambda>t. t\<lparr>robotsParser := p\<rparr>) (crawl_loop P W (seeded W c))"
    by (simp add: s)
  show ?thesis
    using None
    by (simp add: crawl_def Let_def l generateReport_robots catch_close_def
        split: option.split)
       (simp add: browser_close_def)
qed

lemma browser_events_loop_body:
  "browser_events (trace (snd (loop_body P W s))) = browser_events (trace s)"
  using trace_loop_body [of P W s] by (auto simp add: browser_events_def)

lemma browser_events_crawl_loop:
  "browser_events (trace (snd (crawl_loop P W s))) = browser_events (trace s)"
  by (rule exit_invariant [where I = "\<lambda>t. browser_events (trace t) = browser_events (trace s)"])
     (simp_all add: browser_events_loop_body)

lemma browser_events_seeded:
  "browser_events (trace (seeded W (init_crawler ident start cfg))) = [BrowserLaunch]"
  by (simp add: seeded_def Let_def loadRobotsTxt_def init_crawler_def browser_events_def)

lemma browser_events_close [simp]:
  "browser_events (trace (browser_close s)) = browser_events (trace s) @ [BrowserClose]"
  by (simp add: browser_close_def browser_events_def)

lemma browser_browser_close [simp]: "browser (browser_close s) = browser s"
  by (simp add: browser_close_def)

lemma crawl_report:
  "fst (crawl P W c) = Inr rep \<Longrightarrow> rep = generateReport W (snd (crawl P W c))"
  by (auto simp add: crawl_def Let_def catch_close_def split: option.splits if_splits)

lemma round_even_err: "\<bar>of_int (round_even x) - x\<bar> \<le> 1 / 2"
proof -
  have "of_int \<lfloor>x\<rfloor> \<le> x" "x < of_int \<lfloor>x\<rfloor> + 1" by linarith+
  then show ?thesis
    unfolding round_even_def Let_def abs_if
    by (simp split: if_split) linarith
qed

lemma ilog2_le:
  assumes "x \<noteq> 0"
  shows "power_int 2 (ilog2 x) \<le> \<bar>x\<bar>"
proof -
  obtain p q where pq: "quotient_of \<bar>x\<bar> = (p, q)" by (cases "quotient_of \<bar>x\<bar>")
  then have q: "0 < q" and x: "\<bar>x\<bar> = of_int p / of_int q"
    by (simp_all add: quotient_of_denom_pos quotient_of_div)
  from assms have "0 < \<bar>x\<bar>" by simp
  with x q have p: "0 < p" by (simp add: zero_less_divide_iff)
  let ?e = "bitlen p - bitlen q"
  have "power_int 2 (?e - 1) \<le> \<bar>x\<bar>"
  proof -
    from bitlen_bounds [OF p] have "2 ^ nat (bitlen p - 1) \<le> p" by simp
    then have "(of_int (2 ^ nat (bitlen p - 1)) :: rat) \<le> of_int p" by (simp only: of_int_le_iff)
    then have 1: "(2 :: rat) ^ nat (bitlen p - 1) \<le> of_int p" by simp
    from bitlen_bounds [OF q] have "q < 2 ^ nat (bitlen q)" by simp
    then have "(of_int q :: rat) < of_int (2 ^ nat (bitlen q))" by (simp only: of_int_less_iff)
    then have 2: "(of_int q :: rat) < 2 ^ nat (bitlen q)" by simp
    from p have bp: "1 \<le> bitlen p" using bitlen_eq_zero_iff [of p] bitlen_nonneg [of p] by linarith
    have "power_int (2 :: rat) (?e - 1) = power_int 2 (bitlen p - 1) / power_int 2 (bitlen q)"
      using power_int_diff [of "2 :: rat" "bitlen p - 1" "bitlen q"] by (simp add: algebra_simps)
    also have "\<dots> = 2 ^ nat (bitlen p - 1) / 2 ^ nat (bitlen q)"
      using bp bitlen_nonneg [of q] by (simp add: power_int_def)
    also have "\<dots> \<le> of_int p / of_int q"
      using 1 2 q p by (intro frac_le) simp_all
    finally show ?thesis by (simp add: x)
  qed
  then show ?thesis by (simp add: ilog2_def pq Let_def)
qed

text \<open>Rounding changes a number by at most \<open>2^-53\<close> of its absolute value.\<close>

lemma to_double_err: "\<bar>to_double x - x\<bar> \<le> \<bar>x\<bar> / 2 ^ 53"
proof (cases "x = 0")
  case True
  then show ?thesis by (simp add: to_double_def)
next
  case False
  define ulp :: rat where "ulp = power_int 2 (ilog2 x - 52)"
  have pos: "0 < ulp" by (simp add: ulp_def)
  have "ulp = power_int 2 (ilog2 x) / 2 ^ 52"
    using power_int_diff [of "2 :: rat" "ilog2 x" 52] by (simp add: ulp_def)
  with ilog2_le [OF False] have le: "ulp \<le> \<bar>x\<bar> / 2 ^ 52"
    by (simp add: divide_right_mono)
  have "to_double x - x = (of_int (round_even (x / ulp)) - x / ulp) * ulp"
    using False pos by (simp add: to_double_def Let_def ulp_def [symmetric] algebra_simps)
  then have "\<bar>to_double x - x\<bar> = \<bar>of_int (round_even (x / ulp)) - x / ulp\<bar> * ulp"
    using pos by (simp add: abs_mult)
  also have "\<dots> \<le> 1 / 2 * ulp"
    using round_even_err [of "x / ulp"] pos by (intro mult_right_mono) simp_all
  also have "\<dots> \<le> 1 / 2 * (\<bar>x\<bar> / 2 ^ 52)"
    using le by simp
  finally show ?thesis by simp
qed

lemma fsum_step:
  fixes u c M x s a q r :: rat
  assumes u: "0 \<le> u" and c: "1 + u \<le> c" and M: "\<bar>s\<bar> \<le> M"
    and D: "\<bar>a - s\<bar> \<le> (c - 1) * M"
    and q: "\<bar>q - x\<bar> \<le> u * \<bar>x\<bar>" and r: "\<bar>r - (a + q)\<bar> \<le> u * \<bar>a + q\<bar>"
  shows "\<bar>r - (s + x)\<bar> \<le> (c * (1 + u) - 1) * (M + \<bar>x\<bar>)"
proof -
  from D have D': "\<bar>a - s\<bar> \<le> c * M - M" by (simp add: algebra_simps)
  have "\<bar>a + q\<bar> \<le> \<bar>a - s\<bar> + \<bar>s\<bar> + \<bar>q - x\<bar> + \<bar>x\<bar>" by linarith
  with M D' q have "\<bar>a + q\<bar> \<le> c * M + \<bar>x\<bar> + u * \<bar>x\<bar>" by linarith
  with u have "u * \<bar>a + q\<bar> \<le> u * (c * M + \<bar>x\<bar> + u * \<bar>x\<bar>)" by (rule mult_left_mono [rotated])
  with r have r': "\<bar>r - (a + q)\<bar> \<le> u * (c * M) + u * \<bar>x\<bar> + u * (u * \<bar>x\<bar>)"
    by (simp add: algebra_simps)
  have "\<bar>r - (s + x)\<bar> \<le> \<bar>r - (a + q)\<bar> + \<bar>a - s\<bar> + \<bar>q - x\<bar>" by linarith
  with r' D' q have 1: "\<bar>r - (s + x)\<bar>
      \<le> u * (c * M) + c * M - M + (2 * (u * \<bar>x\<bar>) + u * (u * \<bar>x\<bar>))" by linarith
  from u c have "(1 + u) * (1 + u) \<le> c * (1 + u)" by (intro mult_right_mono) simp_all
  then have "((1 + u) * (1 + u)) * \<bar>x\<bar> \<le> (c * (1 + u)) * \<bar>x\<bar>"
    by (rule mult_right_mono) simp
  then have 2: "2 * (u * \<bar>x\<bar>) + u * (u * \<bar>x\<bar>) \<le> c * \<bar>x\<bar> + c * (u * \<bar>x\<bar>) - \<bar>x\<bar>"
    by (simp add: algebra_simps)
  from 1 2 have "\<bar>r - (s + x)\<bar>
      \<le> u * (c * M) + c * M - M + (c * \<bar>x\<bar> + c * (u * \<bar>x\<bar>) - \<bar>x\<bar>)" by linarith
  then show ?thesis by (simp add: algebra_simps)
qed

text \<open>
  The rounded sum of rounded terms, against the exact sum: after \<open>n\<close> terms the error
  is at most \<open>(1 + 2^-53)^(n+1) - 1\<close> of the sum of the absolute values.
\<close>

lemma fsum_err:
  fixes f :: "'a \<Rightarrow> rat"
  assumes "\<bar>a - s\<bar> \<le> ((1 + 1 / 2 ^ 53) ^ Suc k - 1) * M" "\<bar>s\<bar> \<le> M"
  shows "\<bar>foldl (\<lambda>acc x. to_double (acc + to_double (f x))) a xs - (s + sum_list (map f xs))\<bar>
          \<le> ((1 + 1 / 2 ^ 53) ^ (Suc k + length xs) - 1) * (M + sum_list (map (\<lambda>x. \<bar>f x\<bar>) xs))"
  using assms
proof (induction xs arbitrary: a s k M)
  case Nil
  then show ?case by simp
next
  case (Cons x xs)
  let ?u = "1 / 2 ^ 53 :: rat"
  let ?a = "to_double (a + to_double (f x))"
  have c: "1 + ?u \<le> (1 + ?u) ^ Suc k"
    using self_le_power [of "1 + ?u" "Suc k"] by simp
  have q: "\<bar>to_double (f x) - f x\<bar> \<le> ?u * \<bar>f x\<bar>"
    using to_double_err [of "f x"] by simp
  have r: "\<bar>?a - (a + to_double (f x))\<bar> \<le> ?u * \<bar>a + to_double (f x)\<bar>"
    using to_double_err [of "a + to_double (f x)"] by simp
  have "\<bar>?a - (s + f x)\<bar> \<le> ((1 + ?u) ^ Suc k * (1 + ?u) - 1) * (M + \<bar>f x\<bar>)"
    by (rule fsum_step [OF _ c Cons.prems(2) Cons.prems(1) q r]) simp
  then have 1: "\<bar>?a - (s + f x)\<bar> \<le> ((1 + ?u) ^ Suc (Suc k) - 1) * (M + \<bar>f x\<bar>)"
    by (simp add: mult.commute)
  from Cons.prems(2) have 2: "\<bar>s + f x\<bar> \<le> M + \<bar>f x\<bar>" by linarith
  from Cons.IH [OF 1 2] show ?case by (simp add: add.assoc)
qed

lemma sum_list_quotients:
  fixes n :: rat
  shows "sum_list (map (\<lambda>t. of_int t / n) ts) = of_int (sum_list ts) / n"
  by (induction ts) (simp_all add: add_divide_distrib)

lemma sum_list_abs_quotients:
  "sum_list (map (\<lambda>t. \<bar>of_int t / of_nat n :: rat\<bar>) ts)
     = of_int (sum_list (map abs ts)) / of_nat n"
  by (induction ts) (simp_all add: add_divide_distrib)

lemma avg_loadTime_samples:
  "avg_loadTime pages =
     (let ts = map loadTime_of (filter has_loadTime pages)
      in foldl (\<lambda>sum t. to_double (sum + to_double (of_int t / of_nat (length ts)))) 0 ts)"
  by (simp add: avg_loadTime_def Let_def foldl_map)

lemma loadTime_samples:
  "list_all (\<lambda>kv. case snd kv of PageData d \<Rightarrow> pd_loadTime d \<noteq> 0 | PageError e \<Rightarrow> True) rs \<Longrightarrow>
     map loadTime_of (filter has_loadTime (map snd rs)) = page_loadTimes rs"
  by (induction rs) (auto simp add: page_loadTimes_def split: page_result.splits)

lemma avg_loadTime_err:
  "\<bar>foldl (\<lambda>sum t. to_double (sum + to_double (of_int t / of_nat n))) 0 ts
       - of_int (sum_list ts) / of_nat n\<bar>
     \<le> ((1 + 1 / 2 ^ 53) ^ Suc (length ts) - 1) * (of_int (sum_list (map abs ts)) / of_nat n)"
proof -
  let ?f = "\<lambda>t. of_int t / of_nat n :: rat"
  have "\<bar>foldl (\<lambda>acc x. to_double (acc + to_double (?f x))) 0 ts - (0 + sum_list (map ?f ts))\<bar>
      \<le> ((1 + 1 / 2 ^ 53) ^ (Suc 0 + length ts) - 1) * (0 + sum_list (map (\<lambda>x. \<bar>?f x\<bar>) ts))"
    by (rule fsum_err) simp_all
  then have "\<bar>foldl (\<lambda>acc x. to_double (acc + to_double (?f x))) 0 ts - sum_list (map ?f ts)\<bar>
      \<le> ((1 + 1 / 2 ^ 53) ^ Suc (length ts) - 1) * sum_list (map (\<lambda>x. \<bar>?f x\<bar>) ts)"
    by (simp only: add_0_left add_Suc)
  then show ?thesis by (simp only: sum_list_quotients sum_list_abs_quotients)
qed

lemma set_index_insert: "set (index_insert k v props) = insert (k, v) (set props)"
  by (induction props) auto

lemma length_index_insert: "length (index_insert k v props) = Suc (length props)"
  by (induction props) simp_all

lemma distinct_index_insert:
  "k \<notin> fst ` set props \<Longrightarrow> distinct (map fst props) \<Longrightarrow>
     distinct (map fst (index_insert k v props))"
  by (induction props) (auto simp add: set_index_insert)

lemma map_of_index_insert:
  "k \<notin> fst ` set props \<Longrightarrow> map_of (index_insert k v props) = (map_of props)(k \<mapsto> v)"
  by (induction props) (auto simp add: fun_upd_twist)

lemma set_own_set: "set (own_set props k v) \<subseteq> insert (k, v) (set props)"
  by (auto simp add: own_set_def set_index_insert dest: in_update_cases)

lemma keys_own_set: "fst ` set (own_set props k v) = insert k (fst ` set props)"
  by (auto simp add: own_set_def set_index_insert dom_update)

lemma distinct_own_set:
  "distinct (map fst props) \<Longrightarrow> distinct (map fst (own_set props k v))"
  by (simp add: own_set_def distinct_update distinct_index_insert)

lemma length_update_le: "length (AList.update k v al) \<le> Suc (length al)"
  by (induction al) simp_all

lemma length_own_set: "length (own_set props k v) \<le> Suc (length props)"
  by (simp add: own_set_def length_update_le length_index_insert)

lemma update_absent:
  "k \<notin> fst ` set props \<Longrightarrow> AList.update k v props = props @ [(k, v)]"
  by (induction props) auto

lemma map_of_own_set: "map_of (own_set props k v) = (map_of props)(k \<mapsto> v)"
proof (cases "k \<in> fst ` set props")
  case True
  then show ?thesis by (simp add: own_set_def update_conv')
next
  case False
  then have "map_of (props @ [(k, v)]) = (map_of props)(k \<mapsto> v)"
    using update_conv' [of k v props] update_absent [of k props v] by simp
  with False show ?thesis by (simp add: own_set_def map_of_index_insert)
qed

lemma set_build_sitemap:
  "set (obj_own (foldl (add_sitemap start) acc rs))
     \<subseteq> set (obj_own acc) \<union> (\<lambda>kv. (path_key start (fst kv), sitemap_entry_of (snd kv))) ` set rs"
proof (induction rs arbitrary: acc)
  case Nil
  show ?case by simp
next
  case (Cons kv rs)
  have "set (obj_own (add_sitemap start acc kv))
      \<subseteq> insert (path_key start (fst kv), sitemap_entry_of (snd kv)) (set (obj_own acc))"
    using set_own_set [of "obj_own acc" "path_key start (fst kv)" "sitemap_entry_of (snd kv)"]
    by (auto simp add: add_sitemap_def obj_set_def)
  with Cons [of "add_sitemap start acc kv"] show ?case by auto
qed

lemma replace_first_at_head:
  "prefix pat t \<Longrightarrow> replace_first pat rep t = rep @ drop (length pat) t"
  by (cases t) auto

lemma replace_first_self: "replace_first s [] s = []"
  by (simp add: replace_first_at_head)

lemma replace_first_prefix: "replace_first s [] (s @ r) = r"
  by (simp add: replace_first_at_head)

lemma keys_build_sitemap:
  "fst ` set (obj_own (foldl (add_sitemap start) acc rs))
     = fst ` set (obj_own acc) \<union> (path_key start ` fst ` set rs - {''__proto__''})"
proof (induction rs arbitrary: acc)
  case Nil
  show ?case by simp
next
  case (Cons kv rs)
  have "fst ` set (obj_own (add_sitemap start acc kv))
      = fst ` set (obj_own acc) \<union> ({path_key start (fst kv)} - {''__proto__''})"
    by (auto simp add: add_sitemap_def obj_set_def keys_own_set)
  with Cons [of "add_sitemap start acc kv"] show ?case by auto
qed

lemma distinct_build_sitemap:
  "distinct (map fst (obj_own acc)) \<Longrightarrow>
     distinct (map fst (obj_own (foldl (add_sitemap start) acc rs)))"
  by (induction rs arbitrary: acc) (simp_all add: add_sitemap_def obj_set_def distinct_own_set)

lemma length_build_sitemap:
  "length (obj_own (foldl (add_sitemap start) acc rs)) \<le> length (obj_own acc) + length rs"
proof (induction rs arbitrary: acc)
  case Nil
  show ?case by simp
next
  case (Cons kv rs)
  have "length (obj_own (add_sitemap start acc kv)) \<le> Suc (length (obj_own acc))"
    by (simp add: add_sitemap_def obj_set_def length_own_set)
  with Cons [of "add_sitemap start acc kv"] show ?case by simp
qed

lemma map_of_build_sitemap:
  "k \<noteq> ''__proto__'' \<Longrightarrow>
   map_of (obj_own (foldl (add_sitemap start) acc rs)) k
     = map_of (rev (map (\<lambda>kv. (path_key start (fst kv), sitemap_entry_of (snd kv))) rs)
               @ obj_own acc) k"
proof (induction rs arbitrary: acc)
  case Nil
  show ?case by simp
next
  case (Cons kv rs)
  let ?g = "\<lambda>kv. (path_key start (fst kv), sitemap_entry_of (snd kv))"
  have "map_of (obj_own (foldl (add_sitemap start) acc (kv # rs))) k
      = map_of (obj_own (foldl (add_sitemap start) (add_sitemap start acc kv) rs)) k" by simp
  also have "\<dots> = map_of (rev (map ?g rs) @ obj_own (add_sitemap start acc kv)) k"
    by (rule Cons.IH [OF Cons.prems])
  also have "\<dots> = map_of (rev (map ?g (kv # rs)) @ obj_own acc) k"
    using Cons.prems
    by (simp add: add_sitemap_def obj_set_def map_of_own_set map_add_def split: option.split)
  finally show ?case .
qed

lemma proto_build_sitemap:
  "obj_proto (foldl (add_sitemap start) acc rs)
     = (case map_of (rev (map (\<lambda>kv. (path_key start (fst kv), sitemap_entry_of (snd kv))) rs))
               ''__proto__'' of
          None \<Rightarrow> obj_proto acc
        | Some entry \<Rightarrow> Some entry)"
proof (induction rs arbitrary: acc)
  case Nil
  show ?case by simp
next
  case (Cons kv rs)
  have "obj_proto (add_sitemap start acc kv)
      = (if path_key start (fst kv) = ''__proto__'' then Some (sitemap_entry_of (snd kv))
         else obj_proto acc)"
    by (simp add: add_sitemap_def obj_set_def)
  then show ?case
    by (simp add: Cons [of "add_sitemap start acc kv"] map_add_def split: option.split)
qed








section \<open>The claims\<close>

text \<open>
  C1 (amended). When the entry at the head of the queue passes the three checks of the
  loop and its navigation is rejected (and the page closes), the iteration throws
  nothing, stores under the URL an error result of exactly
  \<open>{url, error, depth, parentUrl, crawledAt}\<close>, navigates once, and the loop goes on
  with the rest of the queue. \<open>visitedUrls\<close> is unchanged: the URL is not counted as
  visited or toward \<open>maxPages\<close>, and is navigated again when it is dequeued again.
\<close>

theorem failed_navigation_recorded:
  assumes "loop_guard s"
    and "e = hd (crawlQueue s)"
    and "q_url e \<notin> set (visitedUrls s)"
    and "q_depth e \<le> maxDepth (config s)"
    and "isAllowedByRobots s (q_url e) = Some True"
    and "v = visit W (tick s) (q_url e)"
    and "newPage_error v = None"
    and "goto_result v = Inl msg"
    and "close_error v = None"
  shows "loop_body P W s = (None, after_failure s msg (visit_iso v))
         \<and> crawl_loop P W s = crawl_loop P W (after_failure s msg (visit_iso v))
         \<and> visitedUrls (after_failure s msg (visit_iso v)) = visitedUrls s
         \<and> crawlQueue (after_failure s msg (visit_iso v)) = tl (crawlQueue s)"
proof -
  let ?s1 = "s\<lparr>crawlQueue := tl (crawlQueue s), trace := trace s @ [Dequeue e]\<rparr>"
  have al: "isAllowedByRobots ?s1 (q_url e) = isAllowedByRobots s (q_url e)"
    by (rule isAllowedByRobots_frame) simp_all
  from assms(3-5) al
  have "loop_body P W s = crawlPage P v (q_url e) (q_depth e) (q_parentUrl e) ?s1"
    by (simp add: loop_body_def Let_def assms(2) [symmetric] assms(6) [symmetric])
  also from assms(7-9) have "\<dots> = (None, after_failure s msg (visit_iso v))"
    by (simp add: crawlPage_def Let_def record_error_def after_failure_def assms(2) [symmetric])
  finally have body: "loop_body P W s = (None, after_failure s msg (visit_iso v))" .
  with assms(1) have "crawl_loop P W s = crawl_loop P W (after_failure s msg (visit_iso v))"
    by (subst crawl_loop.simps) (simp add: Let_def)
  with body show ?thesis
    by (simp add: after_failure_def Let_def)
qed

text \<open>
  On the sample site, the second iteration: \<open>/b\<close> refuses the connection.
\<close>

theorem failed_navigation_recorded_witness:
  "loop_guard sample_first
   \<and> q_url (hd (crawlQueue sample_first)) = ''https://example.com/b''
   \<and> q_url (hd (crawlQueue sample_first)) \<notin> set (visitedUrls sample_first)
   \<and> q_depth (hd (crawlQueue sample_first)) \<le> maxDepth (config sample_first)
   \<and> isAllowedByRobots sample_first (q_url (hd (crawlQueue sample_first))) = Some True
   \<and> visit sample_world (tick sample_first) (q_url (hd (crawlQueue sample_first))) = sample_down
   \<and> goto_result sample_down = Inl ''net::ERR_CONNECTION_REFUSED''
   \<and> loop_body sample_platform sample_world sample_first
       = (None, after_failure sample_first ''net::ERR_CONNECTION_REFUSED'' (visit_iso sample_down))
   \<and> crawl_loop sample_platform sample_world sample_first
       = crawl_loop sample_platform sample_world
           (after_failure sample_first ''net::ERR_CONNECTION_REFUSED'' (visit_iso sample_down))
   \<and> visitedUrls (after_failure sample_first ''net::ERR_CONNECTION_REFUSED'' (visit_iso sample_down))
       = [''https://example.com'']
   \<and> map_of (results (after_failure sample_first ''net::ERR_CONNECTION_REFUSED'' (visit_iso sample_down)))
         ''https://example.com/b''
       = Some (PageError \<lparr>pe_url = ''https://example.com/b'', pe_error = ''net::ERR_CONNECTION_REFUSED'',
            pe_depth = 1, pe_parentUrl = Some ''https://example.com'',
            pe_crawledAt = ''2024-01-01T00:00:00.000Z''\<rparr>)"
proof -
  have g: "loop_guard sample_first" by code_simp
  have u: "q_url (hd (crawlQueue sample_first)) = ''https://example.com/b''" by code_simp
  have n: "q_url (hd (crawlQueue sample_first)) \<notin> set (visitedUrls sample_first)" by code_simp
  have d: "q_depth (hd (crawlQueue sample_first)) \<le> maxDepth (config sample_first)" by code_simp
  have a: "isAllowedByRobots sample_first (q_url (hd (crawlQueue sample_first))) = Some True"
    by code_simp
  have v: "sample_down = visit sample_world (tick sample_first) (q_url (hd (crawlQueue sample_first)))"
    by (simp add: u sample_world_def sample_visit_def)
  have p: "newPage_error sample_down = None" by (simp add: sample_down_def)
  have f: "goto_result sample_down = Inl ''net::ERR_CONNECTION_REFUSED''" by (simp add: sample_down_def)
  have c: "close_error sample_down = None" by (simp add: sample_down_def)
  have vs: "visitedUrls sample_first = [''https://example.com'']" by code_simp
  have r: "map_of (results (after_failure sample_first ''net::ERR_CONNECTION_REFUSED'' (visit_iso sample_down)))
         ''https://example.com/b''
       = Some (PageError \<lparr>pe_url = ''https://example.com/b'', pe_error = ''net::ERR_CONNECTION_REFUSED'',
            pe_depth = 1, pe_parentUrl = Some ''https://example.com'',
            pe_crawledAt = ''2024-01-01T00:00:00.000Z''\<rparr>)" by code_simp
  from failed_navigation_recorded [OF g refl n d a v p f c, of sample_platform] g u n d a v f vs r
  show ?thesis by simp
qed

text \<open>
  C1 as stated fails: in the sample crawl the navigation to \<open>/b\<close> fails, \<open>/b\<close> is
  navigated twice (it is queued by the seed and again by \<open>/a\<close>), and it is not in
  \<open>visitedUrls\<close>, which holds 2 URLs while \<open>results\<close> holds 4.
\<close>

theorem failed_url_not_visited_counterexample:
  "goto_result (visit sample_world 1 ''https://example.com/b'') = Inl ''net::ERR_CONNECTION_REFUSED''
   \<and> length (filter (\<lambda>ev. ev = Navigate ''https://example.com/b'')
        (trace (snd (crawl sample_platform sample_world sample_crawler)))) = 2
   \<and> ''https://example.com/b'' \<notin> set (visitedUrls (snd (crawl sample_platform sample_world sample_crawler)))
   \<and> length (visitedUrls (snd (crawl sample_platform sample_world sample_crawler))) = 2
   \<and> length (results (snd (crawl sample_platform sample_world sample_crawler))) = 4"
proof -
  have "goto_result (visit sample_world 1 ''https://example.com/b'') = Inl ''net::ERR_CONNECTION_REFUSED''"
    by (simp add: sample_world_def sample_visit_def sample_down_def)
  moreover have "length (filter (\<lambda>ev. ev = Navigate ''https://example.com/b'')
        (trace (snd (crawl sample_platform sample_world sample_crawler)))) = 2"
    by code_simp
  moreover have "''https://example.com/b''
      \<notin> set (visitedUrls (snd (crawl sample_platform sample_world sample_crawler)))"
    by code_simp
  moreover have "length (visitedUrls (snd (crawl sample_platform sample_world sample_crawler))) = 2"
    by code_simp
  moreover have "length (results (snd (crawl sample_platform sample_world sample_crawler))) = 4"
    by code_simp
  ultimately show ?thesis by blast
qed

text \<open>
  C2 (amended). In every state at the head of the loop and in the state \<open>crawl\<close> ends
  in, \<open>visitedUrls\<close> holds at most \<open>maxPages\<close> URLs (none when \<open>maxPages\<close> is
  negative), and the results that hold page data are at most as many; the report's
  \<open>totalPages\<close> is at most \<open>maxPages\<close>. Error results are not counted: a URL whose
  navigation fails is stored in \<open>results\<close> without being added to \<open>visitedUrls\<close>.
\<close>

theorem visited_within_maxPages:
  "(reachable P W (init_crawler ident start cfg) s \<longrightarrow>
      int (length (visitedUrls s)) \<le> max 0 (maxPages cfg)
      \<and> data_count (results s) \<le> length (visitedUrls s))
   \<and> int (length (visitedUrls (snd (crawl P W (init_crawler ident start cfg))))) \<le> max 0 (maxPages cfg)
   \<and> data_count (results (snd (crawl P W (init_crawler ident start cfg))))
        \<le> length (visitedUrls (snd (crawl P W (init_crawler ident start cfg))))
   \<and> (fst (crawl P W (init_crawler ident start cfg)) = Inr rep \<longrightarrow>
        int (totalPages rep) \<le> max 0 (maxPages cfg))"
proof -
  let ?c = "init_crawler ident start cfg"
  have cfg: "config ?c = cfg" by (simp add: init_crawler_def)
  have reach: "int (length (visitedUrls s)) \<le> max 0 (maxPages cfg)
      \<and> data_count (results s) \<le> length (visitedUrls s)" if r: "reachable P W ?c s"
  proof -
    have "budget_inv s"
      by (rule reachable_invariant [OF r]) (simp_all add: budget_inv_seeded budget_inv_step)
    with config_reachable [OF r] cfg show ?thesis by (simp add: budget_inv_def)
  qed
  have final: "int (length (visitedUrls (snd (crawl P W ?c)))) \<le> max 0 (maxPages cfg)
      \<and> data_count (results (snd (crawl P W ?c))) \<le> length (visitedUrls (snd (crawl P W ?c)))"
  proof (cases "launch_error W")
    case (Some e)
    then show ?thesis
      by (simp add: crawl_launch_failed loadRobotsTxt_def) (simp add: init_crawler_def data_count_def)
  next
    case None
    have "budget_inv (snd (crawl_loop P W (seeded W ?c)))"
      by (rule exit_invariant) (simp_all add: budget_inv_seeded budget_inv_step)
    then show ?thesis
      using cfg
      by (simp add: crawl_exit [OF None] budget_inv_def config_crawl_loop config_seeded)
  qed
  have rep: "int (totalPages rep) \<le> max 0 (maxPages cfg)"
    if "fst (crawl P W ?c) = Inr rep"
  proof -
    from that have "rep = generateReport W (snd (crawl P W ?c))"
      by (rule crawl_report)
    with final show ?thesis by (simp add: generateReport_def)
  qed
  from reach final rep show ?thesis by blast
qed

text \<open>
  On the sample site with \<open>maxPages = 3\<close>: one URL visited after the first iteration,
  two at the end, and \<open>totalPages = 2\<close>.
\<close>

theorem visited_within_maxPages_witness:
  "reachable sample_platform sample_world sample_crawler sample_first
   \<and> visitedUrls sample_first = [''https://example.com'']
   \<and> data_count (results sample_first) = 1
   \<and> maxPages sample_config = 3
   \<and> int (length (visitedUrls sample_first)) \<le> max 0 (maxPages sample_config)
   \<and> data_count (results sample_first) \<le> length (visitedUrls sample_first)
   \<and> visitedUrls (snd (crawl sample_platform sample_world sample_crawler))
       = [''https://example.com'', ''https://example.com/a'']
   \<and> data_count (results (snd (crawl sample_platform sample_world sample_crawler))) = 2
   \<and> map_sum id totalPages (fst (crawl sample_platform sample_world sample_crawler)) = Inr 2"
proof -
  have v: "visitedUrls sample_first = [''https://example.com'']" by code_simp
  have d: "data_count (results sample_first) = 1" by code_simp
  have m: "maxPages sample_config = 3" by code_simp
  have vf: "visitedUrls (snd (crawl sample_platform sample_world sample_crawler))
       = [''https://example.com'', ''https://example.com/a'']" by code_simp
  have df: "data_count (results (snd (crawl sample_platform sample_world sample_crawler))) = 2"
    by code_simp
  have t: "map_sum id totalPages (fst (crawl sample_platform sample_world sample_crawler)) = Inr 2"
    by code_simp
  from visited_within_maxPages [of sample_platform sample_world "''crawl_1_abc''"
      "''https://example.com''" sample_config sample_first, folded sample_crawler_def]
    reachable_sample_first v d m vf df t
  show ?thesis by simp
qed

text \<open>
  C2 as stated fails: the sample crawl with \<open>maxPages = 3\<close> ends with four entries in
  \<open>results\<close>, two of them error results.
\<close>

theorem results_exceed_maxPages_counterexample:
  "map fst (results (snd (crawl sample_platform sample_world sample_crawler)))
     = [''https://example.com'', ''https://example.com/b'', ''https://example.com/a'',
        ''https://example.com/'']
   \<and> maxPages (config (snd (crawl sample_platform sample_world sample_crawler))) = 3
   \<and> \<not> int (length (results (snd (crawl sample_platform sample_world sample_crawler))))
         \<le> maxPages (config (snd (crawl sample_platform sample_world sample_crawler)))"
  by code_simp

text \<open>
  C3. In every state at the head of the loop and in the state \<open>crawl\<close> ends in, every
  result stored in \<open>results\<close> has a depth of at most \<open>maxDepth\<close>, and no entry deeper
  than \<open>maxDepth\<close> is in the queue (but the seed, at depth 0, when \<open>maxDepth\<close> is
  negative). An iteration whose entry is deeper than \<open>maxDepth\<close> throws nothing and
  leaves the instance as it was but for the queue, which loses this entry alone, and
  the trace; the loop goes on from there.
\<close>

theorem results_within_maxDepth:
  "(reachable P W (init_crawler ident start cfg) s \<longrightarrow>
      (\<forall>kv \<in> set (results s). result_depth (snd kv) \<le> maxDepth cfg))
   \<and> (\<forall>kv \<in> set (results (snd (crawl P W (init_crawler ident start cfg)))).
         result_depth (snd kv) \<le> maxDepth cfg)
   \<and> (reachable P W (init_crawler ident start cfg) s \<longrightarrow>
        (\<forall>e \<in> set (crawlQueue s). q_depth e \<le> max 0 (maxDepth cfg)))
   \<and> (loop_guard t \<and> maxDepth (config t) < q_depth (hd (crawlQueue t)) \<longrightarrow>
         loop_body P W t
           = (None, t\<lparr>crawlQueue := tl (crawlQueue t),
                      trace := trace t @ [Dequeue (hd (crawlQueue t))]\<rparr>)
         \<and> crawl_loop P W t
           = crawl_loop P W (t\<lparr>crawlQueue := tl (crawlQueue t),
                               trace := trace t @ [Dequeue (hd (crawlQueue t))]\<rparr>))"
proof (intro conjI impI)
  let ?c = "init_crawler ident start cfg"
  have cfg: "config ?c = cfg" by (simp add: init_crawler_def)
  {
    assume r: "reachable P W ?c s"
    have "depth_inv s"
      by (rule reachable_invariant [OF r]) (simp_all add: depth_inv_seeded depth_inv_step)
    with config_reachable [OF r] cfg
    show "\<forall>kv \<in> set (results s). result_depth (snd kv) \<le> maxDepth cfg"
      by (simp add: depth_inv_def list_all_iff)
    have "queue_inv s"
      by (rule reachable_invariant [OF r]) (simp_all add: queue_inv_seeded queue_inv_step)
    with config_reachable [OF r] cfg
    show "\<forall>e \<in> set (crawlQueue s). q_depth e \<le> max 0 (maxDepth cfg)"
      by (simp add: queue_inv_def list_all_iff)
  }
  show "\<forall>kv \<in> set (results (snd (crawl P W ?c))). result_depth (snd kv) \<le> maxDepth cfg"
  proof (cases "launch_error W")
    case (Some e)
    then show ?thesis
      by (simp add: crawl_launch_failed loadRobotsTxt_def) (simp add: init_crawler_def)
  next
    case None
    have "depth_inv (snd (crawl_loop P W (seeded W ?c)))"
      by (rule exit_invariant) (simp_all add: depth_inv_seeded depth_inv_step)
    then show ?thesis
      using cfg
      by (simp add: crawl_exit [OF None] depth_inv_def list_all_iff config_crawl_loop
          config_seeded)
  qed
  {
    assume a: "loop_guard t \<and> maxDepth (config t) < q_depth (hd (crawlQueue t))"
    then show body: "loop_body P W t
           = (None, t\<lparr>crawlQueue := tl (crawlQueue t),
                      trace := trace t @ [Dequeue (hd (crawlQueue t))]\<rparr>)"
      by (simp add: skip_too_deep)
    from a show "crawl_loop P W t
           = crawl_loop P W (t\<lparr>crawlQueue := tl (crawlQueue t),
                               trace := trace t @ [Dequeue (hd (crawlQueue t))]\<rparr>)"
      by (subst crawl_loop.simps) (simp add: body Let_def)
  }
qed

text \<open>
  On the sample site, \<open>maxDepth = 5\<close>: the state after the first iteration is reachable,
  holds the seed's result and four queued entries of depth 1; the finished crawl holds
  results of depths 0, 2, 1, 1. From the instance whose queue holds an entry of depth 6
  before the seed, the loop drops that entry and goes on to crawl the seed and what it
  links to: six more entries are dequeued and four results stored, none for the dropped
  entry's depth.
\<close>

theorem results_within_maxDepth_witness:
  "reachable sample_platform sample_world sample_crawler sample_first
   \<and> map fst (results sample_first) = [''https://example.com'']
   \<and> list_all (\<lambda>kv. result_depth (snd kv) \<le> maxDepth sample_config) (results sample_first)
   \<and> map (\<lambda>kv. result_depth (snd kv)) (results (snd (crawl sample_platform sample_world sample_crawler)))
       = [0, 2, 1, 1]
   \<and> list_all (\<lambda>kv. result_depth (snd kv) \<le> maxDepth sample_config)
       (results (snd (crawl sample_platform sample_world sample_crawler)))
   \<and> map q_depth (crawlQueue sample_first) = [1, 1, 1, 1]
   \<and> list_all (\<lambda>e. q_depth e \<le> max 0 (maxDepth sample_config)) (crawlQueue sample_first)
   \<and> loop_guard sample_deep
   \<and> maxDepth (config sample_deep) = 5
   \<and> q_depth (hd (crawlQueue sample_deep)) = 6
   \<and> loop_body sample_platform sample_world sample_deep
       = (None, sample_deep\<lparr>crawlQueue := tl (crawlQueue sample_deep),
                  trace := trace sample_deep @ [Dequeue (hd (crawlQueue sample_deep))]\<rparr>)
   \<and> map q_url (tl (crawlQueue sample_deep)) = [''https://example.com'']
   \<and> crawl_loop sample_platform sample_world sample_deep
       = crawl_loop sample_platform sample_world
           (sample_deep\<lparr>crawlQueue := tl (crawlQueue sample_deep),
              trace := trace sample_deep @ [Dequeue (hd (crawlQueue sample_deep))]\<rparr>)
   \<and> map q_depth (dequeued (trace (snd (crawl_loop sample_platform sample_world sample_deep))))
       = [6, 0, 1, 1, 1, 1, 2]
   \<and> map (\<lambda>kv. result_depth (snd kv))
        (results (snd (crawl_loop sample_platform sample_world sample_deep))) = [0, 2, 1, 1]"
proof -
  note inst = results_within_maxDepth [of sample_platform sample_world "''crawl_1_abc''"
      "''https://example.com''" sample_config sample_first sample_deep,
      folded sample_crawler_def]
  have g: "loop_guard sample_deep" by code_simp
  have m: "maxDepth (config sample_deep) = 5" by code_simp
  have h: "q_depth (hd (crawlQueue sample_deep)) = 6" by code_simp
  have d: "maxDepth (config sample_deep) < q_depth (hd (crawlQueue sample_deep))"
    by (simp add: m h)
  have k: "map fst (results sample_first) = [''https://example.com'']" by code_simp
  have q: "map q_depth (crawlQueue sample_first) = [1, 1, 1, 1]" by code_simp
  have tq: "map q_url (tl (crawlQueue sample_deep)) = [''https://example.com'']" by code_simp
  have ds: "map (\<lambda>kv. result_depth (snd kv))
      (results (snd (crawl sample_platform sample_world sample_crawler))) = [0, 2, 1, 1]"
    by code_simp
  have dq: "map q_depth (dequeued (trace (snd (crawl_loop sample_platform sample_world sample_deep))))
       = [6, 0, 1, 1, 1, 1, 2]" by code_simp
  have rs: "map (\<lambda>kv. result_depth (snd kv))
        (results (snd (crawl_loop sample_platform sample_world sample_deep))) = [0, 2, 1, 1]"
    by code_simp
  from inst reachable_sample_first g d have
    "\<forall>kv \<in> set (results sample_first). result_depth (snd kv) \<le> maxDepth sample_config"
    "\<forall>kv \<in> set (results (snd (crawl sample_platform sample_world sample_crawler))).
        result_depth (snd kv) \<le> maxDepth sample_config"
    "\<forall>e \<in> set (crawlQueue sample_first). q_depth e \<le> max 0 (maxDepth sample_config)"
    "loop_body sample_platform sample_world sample_deep
       = (None, sample_deep\<lparr>crawlQueue := tl (crawlQueue sample_deep),
                  trace := trace sample_deep @ [Dequeue (hd (crawlQueue sample_deep))]\<rparr>)"
    "crawl_loop sample_platform sample_world sample_deep
       = crawl_loop sample_platform sample_world
           (sample_deep\<lparr>crawlQueue := tl (crawlQueue sample_deep),
              trace := trace sample_deep @ [Dequeue (hd (crawlQueue sample_deep))]\<rparr>)"
    by blast+
  with reachable_sample_first g m h k q tq ds dq rs show ?thesis
    by (simp add: list_all_iff)
qed

text \<open>
  C4. The calls of \<open>puppeteer.launch\<close> and \<open>browser.close()\<close> of a crawl, and what the
  caller gets. When the browser launches and the first \<open>browser.close()\<close> resolves there
  is one launch and one close, the close is the last event, and the caller gets the
  report, or the error that escaped the loop. When an error escaped the loop and the
  close of the \<open>catch\<close> block rejects, the caller gets the rejection of the close. When
  the loop ends without error and the \<open>browser.close()\<close> of line 136 rejects, the
  \<open>catch\<close> block calls \<open>browser.close()\<close> a second time and the finished crawl is
  rejected, with the first rejection or with that of the second call: two closes for one
  launch, and no report. When the launch fails the caller gets the launch error and
  there is no browser event; when the seed URL is rejected the constructor throws before
  any event.
\<close>

theorem browser_close_calls:
  "(launch_error W = None
      \<and> fst (crawl_loop P W (seeded W (init_crawler ident start cfg))) = None
      \<and> browser_close_error W 0 = None \<longrightarrow>
        browser_events (trace (snd (crawl P W (init_crawler ident start cfg))))
          = [BrowserLaunch, BrowserClose]
        \<and> last (trace (snd (crawl P W (init_crawler ident start cfg)))) = BrowserClose
        \<and> fst (crawl P W (init_crawler ident start cfg))
            = Inr (generateReport W (snd (crawl P W (init_crawler ident start cfg)))))
   \<and> (launch_error W = None
      \<and> fst (crawl_loop P W (seeded W (init_crawler ident start cfg))) = Some e \<longrightarrow>
        browser_events (trace (snd (crawl P W (init_crawler ident start cfg))))
          = [BrowserLaunch, BrowserClose]
        \<and> last (trace (snd (crawl P W (init_crawler ident start cfg)))) = BrowserClose
        \<and> fst (crawl P W (init_crawler ident start cfg))
            = Inl (case browser_close_error W 0 of None \<Rightarrow> e | Some e' \<Rightarrow> e'))
   \<and> (launch_error W = None
      \<and> fst (crawl_loop P W (seeded W (init_crawler ident start cfg))) = None
      \<and> browser_close_error W 0 = Some e \<longrightarrow>
        browser_events (trace (snd (crawl P W (init_crawler ident start cfg))))
          = [BrowserLaunch, BrowserClose, BrowserClose]
        \<and> fst (crawl P W (init_crawler ident start cfg))
            = Inl (case browser_close_error W 1 of None \<Rightarrow> e | Some e' \<Rightarrow> e'))
   \<and> (launch_error W = Some e \<longrightarrow>
        fst (crawl P W (init_crawler ident start cfg)) = Inl e
        \<and> browser_events (trace (snd (crawl P W (init_crawler ident start cfg)))) = [])
   \<and> (normalizeUrl P url = Inl e \<longrightarrow> crawlWebsite P W url cfg = (Inl e, []))"
proof (intro conjI impI)
  let ?c = "init_crawler ident start cfg"
  let ?r = "crawl_loop P W (seeded W ?c)"
  have ev: "browser_events (trace (snd ?r)) = [BrowserLaunch]"
    by (simp add: browser_events_crawl_loop browser_events_seeded)
  have br: "browser (snd ?r)"
    by (simp add: browser_crawl_loop browser_seeded)
  {
    assume a: "launch_error W = None \<and> fst ?r = None \<and> browser_close_error W 0 = None"
    then have c: "crawl P W ?c
        = (Inr (generateReport W (browser_close (snd ?r))), browser_close (snd ?r))"
      by (simp add: crawl_def Let_def)
    show "browser_events (trace (snd (crawl P W ?c))) = [BrowserLaunch, BrowserClose]"
      by (simp add: c ev)
    show "last (trace (snd (crawl P W ?c))) = BrowserClose"
      by (simp add: c browser_close_def)
    show "fst (crawl P W ?c) = Inr (generateReport W (snd (crawl P W ?c)))"
      by (simp add: c)
  }
  {
    assume a: "launch_error W = None \<and> fst ?r = Some e"
    then have c: "crawl P W ?c
        = (Inl (case browser_close_error W 0 of None \<Rightarrow> e | Some e' \<Rightarrow> e'),
           browser_close (snd ?r))"
      by (simp add: crawl_def Let_def catch_close_def br split: option.split)
    show "browser_events (trace (snd (crawl P W ?c))) = [BrowserLaunch, BrowserClose]"
      by (simp add: c ev)
    show "last (trace (snd (crawl P W ?c))) = BrowserClose"
      by (simp add: c browser_close_def)
    show "fst (crawl P W ?c)
        = Inl (case browser_close_error W 0 of None \<Rightarrow> e | Some e' \<Rightarrow> e')"
      by (simp add: c)
  }
  {
    assume a: "launch_error W = None \<and> fst ?r = None \<and> browser_close_error W 0 = Some e"
    then have c: "crawl P W ?c
        = (Inl (case browser_close_error W 1 of None \<Rightarrow> e | Some e' \<Rightarrow> e'),
           browser_close (browser_close (snd ?r)))"
      by (simp add: crawl_def Let_def catch_close_def br split: option.split)
    show "browser_events (trace (snd (crawl P W ?c)))
        = [BrowserLaunch, BrowserClose, BrowserClose]"
      by (simp add: c ev)
    show "fst (crawl P W ?c)
        = Inl (case browser_close_error W 1 of None \<Rightarrow> e | Some e' \<Rightarrow> e')"
      by (simp add: c)
  }
  {
    assume l: "launch_error W = Some e"
    then show "fst (crawl P W ?c) = Inl e"
      by (simp add: crawl_launch_failed)
    from l show "browser_events (trace (snd (crawl P W ?c))) = []"
      by (simp add: crawl_launch_failed loadRobotsTxt_def) (simp add: init_crawler_def browser_events_def)
  }
  {
    assume "normalizeUrl P url = Inl e"
    then show "crawlWebsite P W url cfg = (Inl e, [])"
      by (simp add: crawlWebsite_def WebsiteCrawler_def)
  }
qed

text \<open>
  On the sample site: a complete crawl of 24 events that returns its report; a browser
  that rejects \<open>newPage()\<close>, closed once before the error reaches the caller; a browser
  whose first \<open>close()\<close> rejects after the same complete crawl: it is closed twice, the
  trace has 25 events, and the caller gets the rejection in place of the report; a
  browser that fails to launch; an empty seed.
\<close>

theorem browser_close_calls_witness:
  "launch_error sample_world = None
   \<and> fst (crawl_loop sample_platform sample_world (seeded sample_world sample_crawler)) = None
   \<and> browser_close_error sample_world 0 = None
   \<and> browser_events (trace (snd (crawl sample_platform sample_world sample_crawler)))
       = [BrowserLaunch, BrowserClose]
   \<and> last (trace (snd (crawl sample_platform sample_world sample_crawler))) = BrowserClose
   \<and> fst (crawl sample_platform sample_world sample_crawler)
       = Inr (generateReport sample_world (snd (crawl sample_platform sample_world sample_crawler)))
   \<and> length (trace (snd (crawl sample_platform sample_world sample_crawler))) = 24
   \<and> launch_error sample_crash = None
   \<and> fst (crawl_loop sample_platform sample_crash (seeded sample_crash sample_crawler))
       = Some ''Target closed''
   \<and> browser_close_error sample_crash 0 = None
   \<and> fst (crawl sample_platform sample_crash sample_crawler) = Inl ''Target closed''
   \<and> trace (snd (crawl sample_platform sample_crash sample_crawler))
       = [RobotsFetch, BrowserLaunch,
          Dequeue \<lparr>q_url = ''https://example.com'', q_depth = 0, q_parentUrl = None\<rparr>,
          BrowserClose]
   \<and> launch_error sample_stuck = None
   \<and> fst (crawl_loop sample_platform sample_stuck (seeded sample_stuck sample_crawler)) = None
   \<and> browser_close_error sample_stuck 0 = Some ''Protocol error (Browser.close): Target closed.''
   \<and> browser_close_error sample_stuck 1 = None
   \<and> browser_events (trace (snd (crawl sample_platform sample_stuck sample_crawler)))
       = [BrowserLaunch, BrowserClose, BrowserClose]
   \<and> fst (crawl sample_platform sample_stuck sample_crawler)
       = Inl ''Protocol error (Browser.close): Target closed.''
   \<and> length (trace (snd (crawl sample_platform sample_stuck sample_crawler))) = 25
   \<and> map fst (results (snd (crawl sample_platform sample_stuck sample_crawler)))
       = map fst (results (snd (crawl sample_platform sample_world sample_crawler)))
   \<and> launch_error sample_no_browser = Some ''Failed to launch the browser process''
   \<and> fst (crawl sample_platform sample_no_browser sample_crawler)
       = Inl ''Failed to launch the browser process''
   \<and> browser_events (trace (snd (crawl sample_platform sample_no_browser sample_crawler))) = []
   \<and> normalizeUrl sample_platform '''' = Inl ''Invalid URL: https://''
   \<and> crawlWebsite sample_platform sample_world '''' sample_config = (Inl ''Invalid URL: https://'', [])"
proof -
  have a: "launch_error sample_world = None" by code_simp
  have a1: "fst (crawl_loop sample_platform sample_world (seeded sample_world sample_crawler)) = None"
    by code_simp
  have a2: "browser_close_error sample_world 0 = None" by code_simp
  have b: "launch_error sample_crash = None" by code_simp
  have b1: "fst (crawl_loop sample_platform sample_crash (seeded sample_crash sample_crawler))
       = Some ''Target closed''" by code_simp
  have b2: "browser_close_error sample_crash 0 = None" by code_simp
  have c: "launch_error sample_stuck = None" by code_simp
  have c1: "fst (crawl_loop sample_platform sample_stuck (seeded sample_stuck sample_crawler)) = None"
    by code_simp
  have c2: "browser_close_error sample_stuck 0
      = Some ''Protocol error (Browser.close): Target closed.''" by code_simp
  have c3: "browser_close_error sample_stuck 1 = None" by code_simp
  have d: "launch_error sample_no_browser = Some ''Failed to launch the browser process''"
    by code_simp
  have e: "normalizeUrl sample_platform '''' = Inl ''Invalid URL: https://''" by code_simp
  have n: "length (trace (snd (crawl sample_platform sample_world sample_crawler))) = 24"
    by code_simp
  have n': "length (trace (snd (crawl sample_platform sample_stuck sample_crawler))) = 25"
    by code_simp
  have k: "map fst (results (snd (crawl sample_platform sample_stuck sample_crawler)))
       = map fst (results (snd (crawl sample_platform sample_world sample_crawler)))"
    by code_simp
  have t: "trace (snd (crawl sample_platform sample_crash sample_crawler))
       = [RobotsFetch, BrowserLaunch,
          Dequeue \<lparr>q_url = ''https://example.com'', q_depth = 0, q_parentUrl = None\<rparr>,
          BrowserClose]" by code_simp
  note ok = browser_close_calls [of sample_world sample_platform "''crawl_1_abc''"
      "''https://example.com''" sample_config, folded sample_crawler_def]
  note crash = browser_close_calls [of sample_crash sample_platform "''crawl_1_abc''"
      "''https://example.com''" sample_config "''Target closed''", folded sample_crawler_def]
  note stuck = browser_close_calls [of sample_stuck sample_platform "''crawl_1_abc''"
      "''https://example.com''" sample_config
      "''Protocol error (Browser.close): Target closed.''", folded sample_crawler_def]
  note nob = browser_close_calls [of sample_no_browser sample_platform "''crawl_1_abc''"
      "''https://example.com''" sample_config "''Failed to launch the browser process''",
      folded sample_crawler_def]
  note seed = browser_close_calls [of sample_world sample_platform "''crawl_1_abc''"
      "''https://example.com''" sample_config "''Invalid URL: https://''" "''''"]
  from ok a a1 a2 have
    "browser_events (trace (snd (crawl sample_platform sample_world sample_crawler)))
       = [BrowserLaunch, BrowserClose]"
    "last (trace (snd (crawl sample_platform sample_world sample_crawler))) = BrowserClose"
    "fst (crawl sample_platform sample_world sample_crawler)
       = Inr (generateReport sample_world (snd (crawl sample_platform sample_world sample_crawler)))"
    by blast+
  moreover from crash b b1 have
    "fst (crawl sample_platform sample_crash sample_crawler)
       = Inl (case browser_close_error sample_crash 0 of None \<Rightarrow> ''Target closed'' | Some e' \<Rightarrow> e')"
    by blast
  then have "fst (crawl sample_platform sample_crash sample_crawler) = Inl ''Target closed''"
    by (simp add: b2)
  moreover from stuck c c1 c2 have
    "browser_events (trace (snd (crawl sample_platform sample_stuck sample_crawler)))
       = [BrowserLaunch, BrowserClose, BrowserClose]"
    "fst (crawl sample_platform sample_stuck sample_crawler)
       = Inl (case browser_close_error sample_stuck 1 of
                None \<Rightarrow> ''Protocol error (Browser.close): Target closed.'' | Some e' \<Rightarrow> e')"
    by blast+
  then have
    "browser_events (trace (snd (crawl sample_platform sample_stuck sample_crawler)))
       = [BrowserLaunch, BrowserClose, BrowserClose]"
    "fst (crawl sample_platform sample_stuck sample_crawler)
       = Inl ''Protocol error (Browser.close): Target closed.''"
    using c3 by simp_all
  moreover from nob d have
    "fst (crawl sample_platform sample_no_browser sample_crawler)
       = Inl ''Failed to launch the browser process''"
    "browser_events (trace (snd (crawl sample_platform sample_no_browser sample_crawler))) = []"
    by blast+
  moreover from seed e have
    "crawlWebsite sample_platform sample_world '''' sample_config = (Inl ''Invalid URL: https://'', [])"
    by blast
  ultimately show ?thesis using a a1 a2 b b1 b2 c c1 c2 c3 d e n n' k t by simp
qed

text \<open>
  C5. The queue is first-in first-out and breadth-first: in every state at the head of
  the loop and at the end of the crawl, the entries dequeued so far followed by the
  entries still queued are sorted by depth, so no entry of depth \<open>N + 1\<close> is dequeued
  while an entry of depth \<open>N\<close> is queued or yet to be queued; and an iteration moves the
  head of the queue to the dequeued entries and appends new entries at the tail.
\<close>

theorem breadth_first_order:
  "(reachable P W (init_crawler ident start cfg) s \<longrightarrow>
      sorted (map q_depth (dequeued (trace s) @ crawlQueue s)))
   \<and> sorted (map q_depth (dequeued (trace (snd (crawl P W (init_crawler ident start cfg))))
                @ crawlQueue (snd (crawl P W (init_crawler ident start cfg)))))
   \<and> (loop_guard t \<longrightarrow>
        prefix (dequeued (trace t) @ crawlQueue t)
          (dequeued (trace (snd (loop_body P W t))) @ crawlQueue (snd (loop_body P W t))))"
proof (intro conjI impI)
  let ?c = "init_crawler ident start cfg"
  {
    assume g: "loop_guard t"
    then obtain e T where q: "crawlQueue t = e # T"
      by (cases "crawlQueue t") (auto simp add: loop_guard_def)
    from trace_loop_body [of P W t] q obtain tr
      where tr: "trace (snd (loop_body P W t)) = trace t @ Dequeue e # tr" "dequeued tr = []"
      by auto
    from queue_loop_body [of P W t] q obtain added
      where ad: "crawlQueue (snd (loop_body P W t)) = T @ added"
      by auto
    have "dequeued (trace (snd (loop_body P W t))) = dequeued (trace t) @ [e]"
      using tr by (simp add: dequeued_def)
    with q ad show "prefix (dequeued (trace t) @ crawlQueue t)
          (dequeued (trace (snd (loop_body P W t))) @ crawlQueue (snd (loop_body P W t)))"
      by (simp add: prefix_def)
  }
  {
    assume r: "reachable P W ?c s"
    have "bfs_inv s"
      by (rule reachable_invariant [OF r]) (simp_all add: bfs_inv_seeded bfs_inv_step)
    then show "sorted (map q_depth (dequeued (trace s) @ crawlQueue s))"
      by (simp add: bfs_inv_def)
  }
  show "sorted (map q_depth (dequeued (trace (snd (crawl P W ?c))) @ crawlQueue (snd (crawl P W ?c))))"
  proof (cases "launch_error W")
    case (Some e)
    then show ?thesis
      by (simp add: crawl_launch_failed loadRobotsTxt_def) (simp add: init_crawler_def dequeued_def)
  next
    case None
    have "bfs_inv (snd (crawl_loop P W (seeded W ?c)))"
      by (rule exit_invariant) (simp_all add: bfs_inv_seeded bfs_inv_step)
    then show ?thesis
      by (simp add: crawl_exit [OF None] bfs_inv_def)
  qed
qed

text \<open>
  On the sample site the entries are dequeued at depths 0, 1, 1, 1, 1, 2.
\<close>

theorem breadth_first_order_witness:
  "reachable sample_platform sample_world sample_crawler sample_first
   \<and> map q_depth (dequeued (trace sample_first)) = [0]
   \<and> map q_depth (crawlQueue sample_first) = [1, 1, 1, 1]
   \<and> sorted (map q_depth (dequeued (trace sample_first) @ crawlQueue sample_first))
   \<and> map q_depth (dequeued (trace (snd (crawl sample_platform sample_world sample_crawler))))
       = [0, 1, 1, 1, 1, 2]
   \<and> sorted (map q_depth (dequeued (trace (snd (crawl sample_platform sample_world sample_crawler)))
        @ crawlQueue (snd (crawl sample_platform sample_world sample_crawler))))
   \<and> loop_guard sample_first
   \<and> prefix (dequeued (trace sample_first) @ crawlQueue sample_first)
        (dequeued (trace (snd (loop_body sample_platform sample_world sample_first)))
          @ crawlQueue (snd (loop_body sample_platform sample_world sample_first)))"
proof -
  have g: "loop_guard sample_first" by code_simp
  have a: "map q_depth (dequeued (trace sample_first)) = [0]" by code_simp
  have b: "map q_depth (crawlQueue sample_first) = [1, 1, 1, 1]" by code_simp
  have c: "map q_depth (dequeued (trace (snd (crawl sample_platform sample_world sample_crawler))))
       = [0, 1, 1, 1, 1, 2]" by code_simp
  from breadth_first_order [of sample_platform sample_world "''crawl_1_abc''"
      "''https://example.com''" sample_config sample_first sample_first, folded sample_crawler_def]
    reachable_sample_first a b c g
  show ?thesis by simp
qed

text \<open>
  C6. With \<open>respectRobotsTxt\<close> set and a robots.txt policy loaded, a URL for which the
  policy does not answer \<open>true\<close> for the configured user agent (it answers \<open>false\<close>:
  disallowed, or \<open>undefined\<close>) is never a key of \<open>results\<close>, in any state at the head
  of the loop or at the end of the crawl. With \<open>respectRobotsTxt\<close> unset,
  \<open>isAllowedByRobots\<close> is \<open>true\<close> for every URL and the outcome of the crawl does not
  depend on what the robots.txt fetch returned.
\<close>

theorem robots_disallowed_never_stored:
  "(reachable P W (init_crawler ident start cfg) s \<and> respectRobotsTxt cfg
      \<and> robots_fetch W = Some isAllowed \<and> isAllowed url (userAgent cfg) \<noteq> Some True
     \<longrightarrow> url \<notin> fst ` set (results s))
   \<and> (respectRobotsTxt cfg \<and> robots_fetch W = Some isAllowed
        \<and> isAllowed url (userAgent cfg) \<noteq> Some True
     \<longrightarrow> url \<notin> fst ` set (results (snd (crawl P W (init_crawler ident start cfg)))))
   \<and> (\<not> respectRobotsTxt (config t) \<longrightarrow> isAllowedByRobots t url = Some True)
   \<and> (\<not> respectRobotsTxt cfg \<longrightarrow>
        fst (crawl P (W\<lparr>robots_fetch := p\<rparr>) (init_crawler ident start cfg))
          = fst (crawl P W (init_crawler ident start cfg)))"
proof (intro conjI impI)
  let ?c = "init_crawler ident start cfg"
  have cfg: "config ?c = cfg" by (simp add: init_crawler_def)
  {
    assume a: "reachable P W ?c s \<and> respectRobotsTxt cfg
      \<and> robots_fetch W = Some isAllowed \<and> isAllowed url (userAgent cfg) \<noteq> Some True"
    then have r: "reachable P W ?c s" by simp
    have "robots_inv s"
      by (rule reachable_invariant [OF r]) (simp_all add: robots_inv_seeded robots_inv_step)
    then show "url \<notin> fst ` set (results s)"
      using a config_reachable [OF r] robotsParser_reachable [OF r] cfg
      by (intro robots_inv_blocks [where isAllowed = isAllowed]) simp_all
  }
  {
    assume a: "respectRobotsTxt cfg \<and> robots_fetch W = Some isAllowed
        \<and> isAllowed url (userAgent cfg) \<noteq> Some True"
    show "url \<notin> fst ` set (results (snd (crawl P W ?c)))"
    proof (cases "launch_error W")
      case (Some e)
      then show ?thesis
        by (simp add: crawl_launch_failed loadRobotsTxt_def) (simp add: init_crawler_def)
    next
      case None
      let ?x = "snd (crawl_loop P W (seeded W ?c))"
      have "robots_inv ?x"
        by (rule exit_invariant) (simp_all add: robots_inv_seeded robots_inv_step)
      then have "url \<notin> fst ` set (results ?x)"
        using a cfg
        by (intro robots_inv_blocks [where isAllowed = isAllowed])
           (simp_all add: config_crawl_loop config_seeded robotsParser_crawl_loop robotsParser_seeded)
      then show ?thesis
        by (simp add: crawl_exit [OF None])
    qed
  }
  {
    assume "\<not> respectRobotsTxt (config t)"
    then show "isAllowedByRobots t url = Some True"
      by (simp add: isAllowedByRobots_def)
  }
  {
    assume "\<not> respectRobotsTxt cfg"
    with cfg show "fst (crawl P (W\<lparr>robots_fetch := p\<rparr>) ?c) = fst (crawl P W ?c)"
      by (intro crawl_robots_bypass) simp
  }
qed

text \<open>
  On the sample site \<open>/p\<close> is disallowed: it is queued by the seed and never stored.
  With the check switched off the crawl gives the same report with and without a policy.
\<close>

theorem robots_disallowed_never_stored_witness:
  "reachable sample_platform sample_world sample_crawler sample_first
   \<and> respectRobotsTxt sample_config
   \<and> robots_fetch sample_world = Some sample_robots
   \<and> sample_robots ''https://example.com/p'' (userAgent sample_config) = Some False
   \<and> ''https://example.com/p'' \<in> set (map q_url (crawlQueue sample_first))
   \<and> ''https://example.com/p'' \<notin> fst ` set (results sample_first)
   \<and> ''https://example.com/p''
        \<notin> fst ` set (results (snd (crawl sample_platform sample_world sample_crawler)))
   \<and> \<not> respectRobotsTxt (config sample_open)
   \<and> isAllowedByRobots sample_open ''https://example.com/p'' = Some True
   \<and> fst (crawl sample_platform (sample_world\<lparr>robots_fetch := None\<rparr>) sample_open)
        = fst (crawl sample_platform sample_world sample_open)"
proof -
  have r: "respectRobotsTxt sample_config" by code_simp
  have f: "robots_fetch sample_world = Some sample_robots" by (simp add: sample_world_def)
  have d: "sample_robots ''https://example.com/p'' (userAgent sample_config) \<noteq> Some True"
    by (simp add: sample_robots_def)
  have d': "sample_robots ''https://example.com/p'' (userAgent sample_config) = Some False"
    by (simp add: sample_robots_def)
  have q: "''https://example.com/p'' \<in> set (map q_url (crawlQueue sample_first))" by code_simp
  have o: "\<not> respectRobotsTxt (config sample_open)" by code_simp
  have o': "\<not> respectRobotsTxt (sample_config\<lparr>respectRobotsTxt := False\<rparr>)" by simp
  note inst = robots_disallowed_never_stored [of sample_platform sample_world "''crawl_1_abc''"
      "''https://example.com''" sample_config sample_first sample_robots "''https://example.com/p''",
      folded sample_crawler_def]
  note open_inst = robots_disallowed_never_stored [of sample_platform sample_world "''crawl_1_abc''"
      "''https://example.com''" "sample_config\<lparr>respectRobotsTxt := False\<rparr>" sample_first sample_robots
      "''https://example.com/p''" sample_open None, folded sample_open_def]
  from inst reachable_sample_first r f d have
    "''https://example.com/p'' \<notin> fst ` set (results sample_first)"
    "''https://example.com/p'' \<notin> fst ` set (results (snd (crawl sample_platform sample_world sample_crawler)))"
    by blast+
  moreover from open_inst o o' have
    "isAllowedByRobots sample_open ''https://example.com/p'' = Some True"
    "fst (crawl sample_platform (sample_world\<lparr>robots_fetch := None\<rparr>) sample_open)
        = fst (crawl sample_platform sample_world sample_open)"
    by blast+
  ultimately show ?thesis
    using reachable_sample_first r f d' q o by simp
qed

text \<open>
  C7 (amended). When no result that holds page data has a \<open>loadTime\<close> of 0,
  \<open>statistics.avgLoadTime\<close> is the sum, in double arithmetic, of the quotients
  \<open>loadTime / n\<close> over the \<open>n\<close> results that hold page data, in the order of \<open>results\<close>
  (0 when there are none): an error result contributes no sample. It differs from the
  arithmetic mean of these load times by at most \<open>(1 + 2^-53)^(n+1) - 1\<close> times the mean
  of their absolute values. Every sitemap entry is the entry of a stored result, and the
  entry of an error result has no \<open>statusCode\<close>, no \<open>loadTime\<close>, and the error message
  as \<open>error\<close> (\<open>null\<close> when the message is empty).
\<close>

theorem avgLoadTime_mean:
  "(list_all (\<lambda>kv. case snd kv of PageData d \<Rightarrow> pd_loadTime d \<noteq> 0 | PageError e \<Rightarrow> True)
       (results s) \<longrightarrow>
      avgLoadTime (statistics (generateReport W s))
        = foldl (\<lambda>sum t. to_double
                   (sum + to_double (of_int t / of_nat (length (page_loadTimes (results s))))))
            0 (page_loadTimes (results s))
      \<and> \<bar>avgLoadTime (statistics (generateReport W s))
           - of_int (sum_list (page_loadTimes (results s)))
               / of_nat (length (page_loadTimes (results s)))\<bar>
          \<le> ((1 + 1 / 2 ^ 53) ^ Suc (length (page_loadTimes (results s))) - 1)
             * (of_int (sum_list (map abs (page_loadTimes (results s))))
                  / of_nat (length (page_loadTimes (results s)))))
   \<and> (\<forall>entry \<in> set (obj_own (sitemap (generateReport W s))).
        \<exists>kv \<in> set (results s). entry = (path_key (startUrl s) (fst kv), sitemap_entry_of (snd kv)))
   \<and> sm_statusCode (sitemap_entry_of (PageError e)) = None
   \<and> sm_loadTime (sitemap_entry_of (PageError e)) = None
   \<and> sm_error (sitemap_entry_of (PageError e))
        = (if pe_error e = [] then None else Some (pe_error e))"
proof -
  let ?ts = "page_loadTimes (results s)"
  let ?sum = "foldl (\<lambda>sum t. to_double (sum + to_double (of_int t / of_nat (length ?ts)))) 0 ?ts"
  have avg: "avgLoadTime (statistics (generateReport W s)) = avg_loadTime (map snd (results s))"
    by (simp add: generateReport_def)
  have 1: "avgLoadTime (statistics (generateReport W s)) = ?sum"
    if "list_all (\<lambda>kv. case snd kv of PageData d \<Rightarrow> pd_loadTime d \<noteq> 0 | PageError e \<Rightarrow> True)
          (results s)"
    unfolding avg avg_loadTime_samples loadTime_samples [OF that] by (simp add: Let_def)
  have 2: "\<bar>?sum - of_int (sum_list ?ts) / of_nat (length ?ts)\<bar>
      \<le> ((1 + 1 / 2 ^ 53) ^ Suc (length ?ts) - 1)
         * (of_int (sum_list (map abs ?ts)) / of_nat (length ?ts))"
    by (rule avg_loadTime_err)
  have 3: "\<forall>entry \<in> set (obj_own (sitemap (generateReport W s))).
        \<exists>kv \<in> set (results s). entry = (path_key (startUrl s) (fst kv), sitemap_entry_of (snd kv))"
    using set_build_sitemap [of "startUrl s" "\<lparr>obj_own = [], obj_proto = None\<rparr>" "results s"]
    by (auto simp add: generateReport_def build_sitemap_def)
  from 1 2 3 show ?thesis by simp
qed

text \<open>
  On the sample site: two pages loaded in 120 ms each, two error results, the average
  is 120; the sitemap entry of \<open>/b\<close> carries the error. On the second site, seven
  pages loaded in 800 ms each: the average is \<open>800 + 2^-43\<close>, within the bound.
\<close>

theorem avgLoadTime_mean_witness:
  "map (\<lambda>kv. case snd kv of PageData d \<Rightarrow> Some (pd_loadTime d) | PageError e \<Rightarrow> None)
       (results (snd (crawl sample_platform sample_world sample_crawler)))
     = [Some 120, None, Some 120, None]
   \<and> list_all (\<lambda>kv. case snd kv of PageData d \<Rightarrow> pd_loadTime d \<noteq> 0 | PageError e \<Rightarrow> True)
       (results (snd (crawl sample_platform sample_world sample_crawler)))
   \<and> page_loadTimes (results (snd (crawl sample_platform sample_world sample_crawler))) = [120, 120]
   \<and> avgLoadTime (statistics (generateReport sample_world
        (snd (crawl sample_platform sample_world sample_crawler)))) = 120
   \<and> list_all (\<lambda>entry. list_ex (\<lambda>kv. entry = (path_key ''https://example.com'' (fst kv),
          sitemap_entry_of (snd kv))) (results (snd (crawl sample_platform sample_world sample_crawler))))
        (obj_own (sitemap (generateReport sample_world
           (snd (crawl sample_platform sample_world sample_crawler)))))
   \<and> map_option (\<lambda>x. (sm_statusCode x, sm_loadTime x, sm_error x))
        (map_of (obj_own (sitemap (generateReport sample_world
           (snd (crawl sample_platform sample_world sample_crawler))))) ''/b'')
       = Some (None, None, Some ''net::ERR_CONNECTION_REFUSED'')
   \<and> list_all (\<lambda>kv. case snd kv of PageData d \<Rightarrow> pd_loadTime d \<noteq> 0 | PageError e \<Rightarrow> True)
       (results (snd (crawl slow_platform slow_world slow_crawler)))
   \<and> page_loadTimes (results (snd (crawl slow_platform slow_world slow_crawler)))
       = [800, 800, 800, 800, 800, 800, 800]
   \<and> avgLoadTime (statistics (generateReport slow_world
        (snd (crawl slow_platform slow_world slow_crawler)))) = 800 + 1 / 2 ^ 43
   \<and> \<bar>avgLoadTime (statistics (generateReport slow_world
          (snd (crawl slow_platform slow_world slow_crawler)))) - 800\<bar>
       \<le> ((1 + 1 / 2 ^ 53) ^ 8 - 1) * 800"
proof -
  let ?s = "snd (crawl sample_platform sample_world sample_crawler)"
  let ?t = "snd (crawl slow_platform slow_world slow_crawler)"
  have d: "map_option (\<lambda>x. (sm_statusCode x, sm_loadTime x, sm_error x))
        (map_of (obj_own (sitemap (generateReport sample_world ?s))) ''/b'')
       = Some (None, None, Some ''net::ERR_CONNECTION_REFUSED'')" by code_simp
  have a: "map (\<lambda>kv. case snd kv of PageData d \<Rightarrow> Some (pd_loadTime d) | PageError e \<Rightarrow> None)
       (results ?s) = [Some 120, None, Some 120, None]" by code_simp
  have h: "list_all (\<lambda>kv. case snd kv of PageData d \<Rightarrow> pd_loadTime d \<noteq> 0 | PageError e \<Rightarrow> True)
       (results ?s)" by code_simp
  have b: "page_loadTimes (results ?s) = [120, 120]" by code_simp
  have f: "foldl (\<lambda>sum t. to_double (sum + to_double (of_int t / of_nat (length [120, 120 :: int]))))
       0 [120, 120] = 120" by code_simp
  have c: "startUrl ?s = ''https://example.com''" by code_simp
  have n: "of_int (sum_list [800, 800, 800, 800, 800, 800, 800]) / of_nat (length [800, 800, 800, 800, 800, 800, 800 :: int]) = (800 :: rat)"
    "Suc (length [800, 800, 800, 800, 800, 800, 800 :: int]) = 8"
    "of_int (sum_list (map abs [800, 800, 800, 800, 800, 800, 800])) / of_nat (length [800, 800, 800, 800, 800, 800, 800 :: int]) = (800 :: rat)"
    by simp_all
  have h': "list_all (\<lambda>kv. case snd kv of PageData d \<Rightarrow> pd_loadTime d \<noteq> 0 | PageError e \<Rightarrow> True)
       (results ?t)" by code_simp
  have b': "page_loadTimes (results ?t) = [800, 800, 800, 800, 800, 800, 800]" by code_simp
  have f': "foldl (\<lambda>sum t. to_double (sum + to_double (of_int t
          / of_nat (length [800, 800, 800, 800, 800, 800, 800 :: int]))))
       0 [800, 800, 800, 800, 800, 800, 800] = 800 + 1 / 2 ^ 43" by code_simp
  from avgLoadTime_mean [of ?s sample_world] h have
    "avgLoadTime (statistics (generateReport sample_world ?s))
       = foldl (\<lambda>sum t. to_double
                  (sum + to_double (of_int t / of_nat (length (page_loadTimes (results ?s))))))
           0 (page_loadTimes (results ?s))"
    "\<forall>entry \<in> set (obj_own (sitemap (generateReport sample_world ?s))).
        \<exists>kv \<in> set (results ?s). entry = (path_key (startUrl ?s) (fst kv), sitemap_entry_of (snd kv))"
    by blast+
  then have 1: "avgLoadTime (statistics (generateReport sample_world ?s)) = 120"
    "list_all (\<lambda>entry. list_ex (\<lambda>kv. entry = (path_key ''https://example.com'' (fst kv),
          sitemap_entry_of (snd kv))) (results ?s))
        (obj_own (sitemap (generateReport sample_world ?s)))"
    unfolding b f c by (simp_all add: list_all_iff list_ex_iff)
  from avgLoadTime_mean [of ?t slow_world] h' have
    "avgLoadTime (statistics (generateReport slow_world ?t))
       = foldl (\<lambda>sum t. to_double
                  (sum + to_double (of_int t / of_nat (length (page_loadTimes (results ?t))))))
           0 (page_loadTimes (results ?t))"
    "\<bar>avgLoadTime (statistics (generateReport slow_world ?t))
           - of_int (sum_list (page_loadTimes (results ?t)))
               / of_nat (length (page_loadTimes (results ?t)))\<bar>
          \<le> ((1 + 1 / 2 ^ 53) ^ Suc (length (page_loadTimes (results ?t))) - 1)
             * (of_int (sum_list (map abs (page_loadTimes (results ?t))))
                  / of_nat (length (page_loadTimes (results ?t))))"
    by blast+
  then have 2: "avgLoadTime (statistics (generateReport slow_world ?t)) = 800 + 1 / 2 ^ 43"
    "\<bar>avgLoadTime (statistics (generateReport slow_world ?t)) - 800\<bar>
       \<le> ((1 + 1 / 2 ^ 53) ^ 8 - 1) * 800"
    unfolding b' f' n by blast+
  from 1 2 a h b d h' b' show ?thesis by simp
qed

text \<open>
  C7 as stated fails: on the second site the seven pages that completed navigation
  have a load time of 800 ms each, whose arithmetic mean is 800; the report says
  \<open>800 + 2^-43\<close> (printed \<open>800.0000000000001\<close>), the sum of seven times the double
  nearest to \<open>800 / 7\<close>.
\<close>

theorem avgLoadTime_rounding_counterexample:
  "map (\<lambda>kv. case snd kv of PageData d \<Rightarrow> Some (pd_loadTime d) | PageError e \<Rightarrow> None)
       (results (snd (crawl slow_platform slow_world slow_crawler)))
     = [Some 800, Some 800, Some 800, Some 800, Some 800, Some 800, Some 800]
   \<and> map_sum id (\<lambda>rep. avgLoadTime (statistics rep)) (fst (crawl slow_platform slow_world slow_crawler))
     = Inr (800 + 1 / 2 ^ 43)
   \<and> (of_int (800 + 800 + 800 + 800 + 800 + 800 + 800) / of_nat 7 :: rat) = 800
   \<and> to_double (800 / 7) = 8042142191733029 / 2 ^ 46"
proof -
  have "map (\<lambda>kv. case snd kv of PageData d \<Rightarrow> Some (pd_loadTime d) | PageError e \<Rightarrow> None)
       (results (snd (crawl slow_platform slow_world slow_crawler)))
     = [Some 800, Some 800, Some 800, Some 800, Some 800, Some 800, Some 800]" by code_simp
  moreover have "map_sum id (\<lambda>rep. avgLoadTime (statistics rep))
      (fst (crawl slow_platform slow_world slow_crawler)) = Inr (800 + 1 / 2 ^ 43)" by code_simp
  moreover have "(of_int (800 + 800 + 800 + 800 + 800 + 800 + 800) / of_nat 7 :: rat) = 800"
    by simp
  moreover have "to_double (800 / 7) = 8042142191733029 / 2 ^ 46" by code_simp
  ultimately show ?thesis by blast
qed

text \<open>
  C8 (amended). The keys of the sitemap are the URLs of the results with the first
  occurrence of the seed URL removed, \<open>/\<close> when nothing is left: the seed is keyed
  \<open>/\<close> and a URL that extends the seed URL is keyed by the extension. Every result whose
  key is not \<open>__proto__\<close> has its key in the sitemap, and the entry under a key is that
  of the last stored result with this key; the keys are distinct, and the sitemap has at
  most as many entries as \<open>results\<close>. (A result keyed \<open>__proto__\<close> has no entry: the last
  one becomes the prototype of the sitemap.)
\<close>

theorem sitemap_keys:
  "fst ` set (obj_own (sitemap (generateReport W s)))
     = path_key (startUrl s) ` fst ` set (results s) - {''__proto__''}
   \<and> distinct (map fst (obj_own (sitemap (generateReport W s))))
   \<and> length (obj_own (sitemap (generateReport W s))) \<le> length (results s)
   \<and> (k \<noteq> ''__proto__'' \<longrightarrow>
        map_of (obj_own (sitemap (generateReport W s))) k
          = map_of (rev (map (\<lambda>kv. (path_key (startUrl s) (fst kv), sitemap_entry_of (snd kv)))
                         (results s))) k)
   \<and> obj_proto (sitemap (generateReport W s))
       = map_of (rev (map (\<lambda>kv. (path_key (startUrl s) (fst kv), sitemap_entry_of (snd kv)))
                      (results s))) ''__proto__''
   \<and> path_key start start = ''/''
   \<and> (rest \<noteq> [] \<longrightarrow> path_key start (start @ rest) = rest)"
proof -
  let ?empty = "\<lparr>obj_own = [], obj_proto = None\<rparr> :: sitemap_entry js_object"
  have sm: "sitemap (generateReport W s) = foldl (add_sitemap (startUrl s)) ?empty (results s)"
    by (simp add: generateReport_def build_sitemap_def)
  have "fst ` set (obj_own (sitemap (generateReport W s)))
      = path_key (startUrl s) ` fst ` set (results s) - {''__proto__''}"
    unfolding sm keys_build_sitemap by simp
  moreover have "distinct (map fst (obj_own (sitemap (generateReport W s))))"
    unfolding sm by (rule distinct_build_sitemap) simp
  moreover have "length (obj_own (sitemap (generateReport W s))) \<le> length (results s)"
    unfolding sm using length_build_sitemap [of "startUrl s" ?empty "results s"] by simp
  moreover have "k \<noteq> ''__proto__'' \<longrightarrow>
        map_of (obj_own (sitemap (generateReport W s))) k
          = map_of (rev (map (\<lambda>kv. (path_key (startUrl s) (fst kv), sitemap_entry_of (snd kv)))
                         (results s))) k"
    unfolding sm using map_of_build_sitemap [of k "startUrl s" ?empty "results s"] by simp
  moreover have "obj_proto (sitemap (generateReport W s))
       = map_of (rev (map (\<lambda>kv. (path_key (startUrl s) (fst kv), sitemap_entry_of (snd kv)))
                      (results s))) ''__proto__''"
    unfolding sm proto_build_sitemap by (simp split: option.split)
  moreover have "path_key start start = ''/''"
    by (simp add: path_key_def replace_first_self)
  moreover have "rest \<noteq> [] \<longrightarrow> path_key start (start @ rest) = rest"
    by (simp add: path_key_def replace_first_prefix)
  ultimately show ?thesis by blast
qed

text \<open>
  On the sample site: four results, the keys \<open>/\<close>, \<open>/b\<close>, \<open>/a\<close>, and under \<open>/b\<close> the
  entry of \<open>https://example.com/b\<close>. On the instance seeded at \<open>https://example.com/x\<close>
  with the results of \<open>/x\<close>, \<open>/x10\<close>, \<open>/x__proto__\<close>, \<open>/x/y\<close> and \<open>/x2\<close>: the keys
  \<open>2\<close>, \<open>10\<close>, \<open>/\<close>, \<open>/y\<close> in this order, and no entry for \<open>/x__proto__\<close>.
\<close>

theorem sitemap_keys_witness:
  "map fst (results (snd (crawl sample_platform sample_world sample_crawler)))
     = [''https://example.com'', ''https://example.com/b'', ''https://example.com/a'',
        ''https://example.com/'']
   \<and> map fst (obj_own (sitemap (generateReport sample_world
         (snd (crawl sample_platform sample_world sample_crawler))))) = [''/'', ''/b'', ''/a'']
   \<and> ''/b'' \<noteq> ''__proto__''
   \<and> map_option sm_url (map_of (obj_own (sitemap (generateReport sample_world
         (snd (crawl sample_platform sample_world sample_crawler))))) ''/b'')
       = Some ''https://example.com/b''
   \<and> obj_proto (sitemap (generateReport sample_world
         (snd (crawl sample_platform sample_world sample_crawler)))) = None
   \<and> ''/b'' \<noteq> []
   \<and> path_key ''https://example.com'' (''https://example.com'' @ ''/b'') = ''/b''
   \<and> path_key ''https://example.com'' ''https://example.com'' = ''/''
   \<and> length (obj_own (sitemap (generateReport sample_world
         (snd (crawl sample_platform sample_world sample_crawler)))))
       \<le> length (results (snd (crawl sample_platform sample_world sample_crawler)))
   \<and> map fst (results sample_keyed)
       = [''https://example.com/x'', ''https://example.com/x10'',
          ''https://example.com/x__proto__'', ''https://example.com/x/y'',
          ''https://example.com/x2'']
   \<and> map (path_key (startUrl sample_keyed) \<circ> fst) (results sample_keyed)
       = [''/'', ''10'', ''__proto__'', ''/y'', ''2'']
   \<and> map fst (obj_own (sitemap (generateReport sample_world sample_keyed)))
       = [''2'', ''10'', ''/'', ''/y'']
   \<and> map_option sm_url (obj_proto (sitemap (generateReport sample_world sample_keyed)))
       = Some ''https://example.com/x__proto__''"
proof -
  let ?s = "snd (crawl sample_platform sample_world sample_crawler)"
  let ?g = "\<lambda>s kv. (path_key (startUrl s) (fst kv), sitemap_entry_of (snd kv))"
  have a: "map fst (results ?s)
     = [''https://example.com'', ''https://example.com/b'', ''https://example.com/a'',
        ''https://example.com/'']" by code_simp
  have b: "map fst (obj_own (sitemap (generateReport sample_world ?s))) = [''/'', ''/b'', ''/a'']"
    by code_simp
  have c: "''/b'' \<noteq> []" "''/b'' \<noteq> ''__proto__''" by simp_all
  have d: "map_option sm_url (map_of (rev (map (?g ?s) (results ?s))) ''/b'')
      = Some ''https://example.com/b''" by code_simp
  have e: "map_of (rev (map (?g ?s) (results ?s))) ''__proto__'' = None" by code_simp
  have f: "map fst (results sample_keyed)
       = [''https://example.com/x'', ''https://example.com/x10'',
          ''https://example.com/x__proto__'', ''https://example.com/x/y'',
          ''https://example.com/x2'']" by code_simp
  have g: "map (path_key (startUrl sample_keyed) \<circ> fst) (results sample_keyed)
       = [''/'', ''10'', ''__proto__'', ''/y'', ''2'']" by code_simp
  have h: "map fst (obj_own (sitemap (generateReport sample_world sample_keyed)))
       = [''2'', ''10'', ''/'', ''/y'']" by code_simp
  have i: "map_option sm_url (map_of (rev (map (?g sample_keyed) (results sample_keyed)))
       ''__proto__'') = Some ''https://example.com/x__proto__''" by code_simp
  note site = sitemap_keys [of sample_world ?s "''/b''" "''https://example.com''" "''/b''"]
  note keyed = sitemap_keys [of sample_world sample_keyed "''/b''" "''https://example.com''" "''/b''"]
  from site c have
    "map_of (obj_own (sitemap (generateReport sample_world ?s))) ''/b''
       = map_of (rev (map (?g ?s) (results ?s))) ''/b''"
    "obj_proto (sitemap (generateReport sample_world ?s))
       = map_of (rev (map (?g ?s) (results ?s))) ''__proto__''"
    "path_key ''https://example.com'' (''https://example.com'' @ ''/b'') = ''/b''"
    "path_key ''https://example.com'' ''https://example.com'' = ''/''"
    "length (obj_own (sitemap (generateReport sample_world ?s))) \<le> length (results ?s)"
    by blast+
  moreover from keyed have
    "obj_proto (sitemap (generateReport sample_world sample_keyed))
       = map_of (rev (map (?g sample_keyed) (results sample_keyed))) ''__proto__''"
    by blast
  ultimately show ?thesis using a b c d e f g h i by simp
qed

text \<open>
  C8 as stated fails: the seed \<open>https://example.com\<close> and the page
  \<open>https://example.com/\<close> are both keyed \<open>/\<close>, so four results give three sitemap
  entries, and the entry under \<open>/\<close> is not the seed's.
\<close>

theorem sitemap_collision_counterexample:
  "map fst (results (snd (crawl sample_platform sample_world sample_crawler)))
     = [''https://example.com'', ''https://example.com/b'', ''https://example.com/a'',
        ''https://example.com/'']
   \<and> map_sum id (\<lambda>rep. map fst (obj_own (sitemap rep)))
        (fst (crawl sample_platform sample_world sample_crawler))
     = Inr [''/'', ''/b'', ''/a'']
   \<and> path_key ''https://example.com'' ''https://example.com'' = ''/''
   \<and> path_key ''https://example.com'' ''https://example.com/'' = ''/''
   \<and> map_sum id (\<lambda>rep. map_option sm_url (map_of (obj_own (sitemap rep)) ''/''))
        (fst (crawl sample_platform sample_world sample_crawler))
     = Inr (Some ''https://example.com/'')"
  by code_simp

text \<open>
  C9 (amended). \<open>normalizeUrl\<close> removes one trailing slash, so it is idempotent where
  its result does not end in a slash: for a URL class with the three serializer laws,
  if \<open>normalizeUrl u\<close> returns \<open>v\<close> and \<open>v\<close> does not end in \<open>/\<close>, then
  \<open>normalizeUrl v\<close> returns \<open>v\<close>.
\<close>

theorem normalizeUrl_idempotent:
  assumes laws: "serializer_laws P"
    and u: "normalizeUrl P u = Inr v"
    and v: "\<not> suffix ''/'' v"
  shows "normalizeUrl P v = Inr v"
proof -
  define u' where "u' = (if \<not> prefix ''http://'' u \<and> \<not> prefix ''https://'' u then ''https://'' @ u else u)"
  from u obtain h where h: "url_href P u' = Some h" and vh: "v = strip_trailing_slash h"
    by (auto simp add: normalizeUrl_def u'_def Let_def split: option.splits)
  have scheme: "prefix ''http://'' u' \<or> prefix ''https://'' u'"
    by (simp add: u'_def)
  from laws h have keep:
    "prefix ''http://'' u' \<Longrightarrow> prefix ''http://'' h \<and> 7 < length h"
    "prefix ''https://'' u' \<Longrightarrow> prefix ''https://'' h \<and> 8 < length h"
    unfolding serializer_laws_def by blast+
  from scheme keep have pv: "prefix ''http://'' v \<or> prefix ''https://'' v"
    unfolding vh using prefix_strip [of "''http://''" h] prefix_strip [of "''https://''" h]
    by auto
  have "\<exists>w. url_href P v = Some w \<and> strip_trailing_slash w = v"
  proof (cases h rule: strip_trailing_slash_cases)
    case 1
    with vh have "v = h" by simp
    moreover from laws h have "url_href P h = Some h"
      unfolding serializer_laws_def by blast
    ultimately show ?thesis using 1 by simp
  next
    case (2 w)
    with vh have vw: "v = w" by simp
    from laws h 2(1) v vw have "url_href P w = Some w \<or> url_href P w = Some (w @ ''/'')"
      unfolding serializer_laws_def by blast
    then show ?thesis
      using v vw by (auto simp add: strip_trailing_slash_snoc strip_trailing_slash_id)
  qed
  with pv show ?thesis
    by (auto simp add: normalizeUrl_def Let_def)
qed

text \<open>The sample platform has the laws, and \<open>example.com/a/\<close> normalizes to a fixed point.\<close>

theorem normalizeUrl_idempotent_witness:
  "serializer_laws sample_platform
   \<and> normalizeUrl sample_platform ''example.com/a/'' = Inr ''https://example.com/a''
   \<and> \<not> suffix ''/'' ''https://example.com/a''
   \<and> normalizeUrl sample_platform ''https://example.com/a'' = Inr ''https://example.com/a''"
proof -
  have n: "normalizeUrl sample_platform ''example.com/a/'' = Inr ''https://example.com/a''"
    by (simp add: normalizeUrl_def sample_platform_def sample_href_def sample_urls_def
        strip_trailing_slash_def)
  have s: "\<not> suffix ''/'' ''https://example.com/a''"
    by (simp add: suffix_def)
  from normalizeUrl_idempotent [OF sample_laws n s] sample_laws n s show ?thesis by simp
qed

text \<open>
  C9 as stated fails: \<open>https://example.com//\<close> normalizes to \<open>https://example.com/\<close>,
  and that to \<open>https://example.com\<close>.
\<close>

theorem normalizeUrl_twice_counterexample:
  "normalize_twice sample_platform ''https://example.com//''
     \<noteq> normalizeUrl sample_platform ''https://example.com//''"
  by (simp add: normalize_twice_def normalizeUrl_def sample_platform_def sample_href_def sample_urls_def
        strip_trailing_slash_def)



end
